theory Spec2Isabelle
  imports Main
begin

section \<open>JavaScript values\<close>

text \<open>
  The tracer handles untyped JavaScript data in three places: the auxiliary data of a log
  call, the \<open>data\<close> payload of a trace context and the arguments of a traced function.
  A plain object is the list of its own properties in insertion order; \<open>JCtx r\<close> is a
  reference to the live \<open>TraceContext\<close> instance with object identity \<open>r\<close>. Numbers are
  integers: nothing below depends on fractions.
\<close>

datatype jsval =
    JUndefined
  | JNull
  | JBool bool
  | JNum int
  | JStr string
  | JArr "jsval list"
  | JObj "(string \<times> jsval) list"
  | JCtx nat

datatype jserror =
    Error string
  | TypeError string
  | SyntaxError string

text \<open>\<open>ToBoolean\<close> of the language: what \<open>if (x)\<close>, \<open>x && y\<close> and \<open>!x\<close> test.\<close>

fun truthy :: "jsval \<Rightarrow> bool" where
  "truthy JUndefined = False"
| "truthy JNull = False"
| "truthy (JBool b) = b"
| "truthy (JNum n) = (n \<noteq> 0)"
| "truthy (JStr s) = (s \<noteq> [])"
| "truthy (JArr _) = True"
| "truthy (JObj _) = True"
| "truthy (JCtx _) = True"

text \<open>\<open>_.isPlainObject\<close>: arrays and class instances are not plain objects.\<close>

fun isPlainObject :: "jsval \<Rightarrow> bool" where
  "isPlainObject (JObj _) = True"
| "isPlainObject _ = False"

text \<open>Reading a property \<open>item.k\<close> of a value that is known not to be null or undefined.\<close>

fun getProp :: "jsval \<Rightarrow> string \<Rightarrow> jsval" where
  "getProp (JObj kvs) k = (case map_of kvs k of Some v \<Rightarrow> v | None \<Rightarrow> JUndefined)"
| "getProp _ k = JUndefined"

text \<open>The rest pattern \<open>const { k, ...rest } = item\<close>.\<close>

fun omit :: "string \<Rightarrow> jsval \<Rightarrow> jsval" where
  "omit k (JObj kvs) = JObj (filter (\<lambda>kv. fst kv \<noteq> k) kvs)"
| "omit k v = v"

subsection \<open>\<open>JSON.stringify\<close> followed by \<open>JSON.parse\<close>\<close>

text \<open>
  \<open>JSON_value v\<close> is the JSON document that \<open>JSON.stringify(v)\<close> writes, as a value:
  \<open>Inr None\<close> when \<open>stringify\<close> yields \<open>undefined\<close>, \<open>Inl\<close> when it throws. A property
  whose value is \<open>undefined\<close> is left out, an \<open>undefined\<close> array element is written as
  \<open>null\<close>. A trace context always reaches itself through its logger
  (\<open>ctx._logger._traceCtx === ctx\<close>), so serialising one throws the circular-structure
  \<open>TypeError\<close>.
\<close>

fun sequenceE :: "('e + 'a) list \<Rightarrow> 'e + 'a list" where
  "sequenceE [] = Inr []"
| "sequenceE (x # xs) =
     (case x of
        Inl e \<Rightarrow> Inl e
      | Inr v \<Rightarrow> (case sequenceE xs of Inl e \<Rightarrow> Inl e | Inr vs \<Rightarrow> Inr (v # vs)))"

definition circular :: jserror where
  "circular = TypeError ''Converting circular structure to JSON''"

fun JSON_value :: "jsval \<Rightarrow> jserror + jsval option" where
  "JSON_value JUndefined = Inr None"
| "JSON_value JNull = Inr (Some JNull)"
| "JSON_value (JBool b) = Inr (Some (JBool b))"
| "JSON_value (JNum n) = Inr (Some (JNum n))"
| "JSON_value (JStr s) = Inr (Some (JStr s))"
| "JSON_value (JArr vs) =
     (case sequenceE (map JSON_value vs) of
        Inl e \<Rightarrow> Inl e
      | Inr ws \<Rightarrow> Inr (Some (JArr (map (\<lambda>w. case w of None \<Rightarrow> JNull | Some j \<Rightarrow> j) ws))))"
| "JSON_value (JObj kvs) =
     (case sequenceE (map (\<lambda>kv. JSON_value (snd kv)) kvs) of
        Inl e \<Rightarrow> Inl e
      | Inr ws \<Rightarrow>
          Inr (Some (JObj (concat (map (\<lambda>(k, w). case w of None \<Rightarrow> [] | Some j \<Rightarrow> [(k, j)])
                                        (zip (map fst kvs) ws))))))"
| "JSON_value (JCtx r) = Inl circular"


definition JSON_clone :: "jsval \<Rightarrow> jserror + jsval" where
  "JSON_clone v =
     (case JSON_value v of
        Inl e \<Rightarrow> Inl e
      | Inr None \<Rightarrow> Inl (SyntaxError ''undefined is not valid JSON'')
      | Inr (Some j) \<Rightarrow> Inr j)"

text \<open>Whether a value holds a reference to a live trace context anywhere inside.\<close>

fun has_ctx_ref :: "jsval \<Rightarrow> bool" where
  "has_ctx_ref (JCtx r) = True"
| "has_ctx_ref (JArr vs) = (\<exists>v \<in> set vs. has_ctx_ref v)"
| "has_ctx_ref (JObj kvs) = (\<exists>kv \<in> set kvs. has_ctx_ref (snd kv))"
| "has_ctx_ref _ = False"

section \<open>Types of the tracer (\<open>types.ts\<close>)\<close>

datatype level = LvError | LvWarn | LvInfo | LvDebug | LvVerbose

definition LOG_LEVELS :: "level list" where
  "LOG_LEVELS = [LvError, LvWarn, LvInfo, LvDebug, LvVerbose]"

text \<open>\<open>Array.prototype.indexOf\<close>: the first position of the element, \<open>-1\<close> when absent.\<close>

fun indexOf :: "'a list \<Rightarrow> 'a \<Rightarrow> int" where
  "indexOf [] x = -1"
| "indexOf (y # ys) x =
     (if y = x then 0 else (let i = indexOf ys x in if i < 0 then -1 else i + 1))"

datatype SpanStatus =
    ABORTED | ALREADY_EXISTS | CANCELLED | DATA_LOSS | DEADLINE_EXCEEDED
  | FAILED_PRECONDITION | INTERNAL_ERROR | INVALID_ARGUMENT | NOT_FOUND | OK
  | OUT_OF_RANGE | PERMISSION_DENIED | RESOURCE_EXHAUSTED | UNAUTHENTICATED
  | UNAVAILABLE | UNIMPLEMENTED | UNKNOWN_ERROR

datatype TraceContextInjectMode = IN_FIRST_ARG_OBJECT | AS_ARG

text \<open>
  Drivers are collaborators behind the interfaces \<open>ILogDriver\<close> and \<open>ITraceDriver\<close>. A
  driver is known by its identity, a span by the identity the driver gave it, and every
  call the tracer makes on one of them is recorded, in order, as an event of the state.
\<close>

datatype logDriver = ConsoleLogDriver nat | LogDriver nat

datatype traceDriver = TraceDriver nat

datatype event =
    LogInit logDriver "string option"
  | LogCall logDriver level string jsval "nat option"
  | TraceInit traceDriver
  | ErrorNotify traceDriver jserror
  | SpanStart traceDriver nat string "nat option" "string option" "string option"
  | SpanSetStatus nat SpanStatus
  | SpanFinish nat

record ICallStackNamesChainItem =
  fnName :: string
  className :: "string option"
  serviceName :: "string option"

section \<open>The trace context (\<open>context.ts\<close>): data\<close>

text \<open>
  The fields of a \<open>TraceContext\<close> instance. \<open>c_ref\<close> is the object identity (what \<open>===\<close>
  compares); the owned logger is kept as the two values its constructor received from the
  class statics, \<open>c_logDriver\<close> and \<open>c_logLevel\<close>, and is rebuilt by \<open>logger_of\<close> below
  (the logger points back to its context, which a value cannot do).
\<close>

record ctx_fields =
  c_ref :: nat
  c_id :: string
  c_autoTracing :: bool
  c_serviceName :: "string option"
  c_serviceColor :: "string option"
  c_callStackNamesChain :: "ICallStackNamesChainItem list option"
  c_className :: "string option"
  c_filePath :: "string option"
  c_fnArgs :: jsval
  c_fnArgsToLog :: "string list option"
  c_fnName :: "string option"
  c_spanHash :: "string option"
  c_span :: "nat option"
  c_data :: jsval
  c_logDriver :: "logDriver option"
  c_logLevel :: "level option"

datatype TraceContext = Ctx (self: ctx_fields) (c_parent: "TraceContext option")

text \<open>
  What the wrapper of a traced function leaves behind when the function returns a
  promise: the handlers it attached with \<open>then\<close> and \<open>catch\<close> run when that promise
  settles, with the context, the start time and the two flags of the call.
\<close>

record pendingFinish =
  pf_promise :: nat
  pf_chained :: nat
  pf_ctx :: TraceContext
  pf_startTime :: int
  pf_shouldLogStartEnd :: bool
  pf_shouldRecordTracing :: bool

text \<open>
  The class statics of \<open>TraceContext\<close> and \<open>Logger\<close>, the environment, and what the
  model needs of the outside world: a counter for object identities, the stream of
  identifiers \<open>nanoid()\<close> draws from, the clock \<open>dayjs()\<close> reads, the hash each span
  serialises to, the contexts that are alive (by identity), the calls made on drivers so
  far, and the handlers waiting for a promise.
\<close>

record tstate =
  tc_serviceName :: "string option"
  tc_serviceColor :: "string option"
  tc_logLevel :: "level option"
  tc_shouldLogStartEnd :: bool
  tc_traceDriver :: "traceDriver option"
  tc_shouldRecordTracing :: bool
  tc_logDriver :: "logDriver option"
  tc_shared :: "TraceContext option"
  tc_injectMode :: "TraceContextInjectMode option"
  Logger_level :: "level option"
  env_LOG_SILENT :: "string option"
  next_ref :: nat
  nanoid_pool :: "nat \<Rightarrow> string"
  nanoid_used :: nat
  clock :: int
  span_hash :: "nat \<Rightarrow> string"
  live :: "nat \<Rightarrow> TraceContext option"
  events :: "event list"
  pending :: "pendingFinish list"

text \<open>The statics as the class bodies initialise them, before any call.\<close>

definition initial_state :: "(nat \<Rightarrow> string) \<Rightarrow> (nat \<Rightarrow> string) \<Rightarrow> tstate" where
  "initial_state ids hashes =
     \<lparr> tc_serviceName = None, tc_serviceColor = None, tc_logLevel = Some LvInfo,
       tc_shouldLogStartEnd = True, tc_traceDriver = None, tc_shouldRecordTracing = True,
       tc_logDriver = None, tc_shared = None, tc_injectMode = None,
       Logger_level = Some LvInfo, env_LOG_SILENT = None, next_ref = 0,
       nanoid_pool = ids, nanoid_used = 0, clock = 0, span_hash = hashes,
       live = (\<lambda>_. None), events = [], pending = [] \<rparr>"

definition emit :: "event \<Rightarrow> tstate \<Rightarrow> tstate" where
  "emit e st = st\<lparr> events := events st @ [e] \<rparr>"

section \<open>The logger (\<open>logger.ts\<close>)\<close>

record Logger =
  l_traceCtx :: "TraceContext option"
  l_driver :: "logDriver option"
  l_level :: "level option"
  l_scope :: "string option"

record ILoggerConfig =
  lc_driver :: "logDriver option"
  lc_level :: "level option"
  lc_scope :: "string option"
  lc_traceCtx :: "TraceContext option"

text \<open>The constructor: it stores what it is given and checks nothing.\<close>

definition Logger_new :: "ILoggerConfig \<Rightarrow> tstate \<Rightarrow> Logger" where
  "Logger_new config st =
     \<lparr> l_traceCtx = lc_traceCtx config,
       l_driver = lc_driver config,
       l_level = (case lc_level config of Some l \<Rightarrow> Some l | None \<Rightarrow> Logger_level st),
       l_scope = lc_scope config \<rparr>"

text \<open>
  The loop of \<open>_log\<close> that removes an injected \<open>$ctx\<close> from each plain-object item.
\<close>

definition cleanItem :: "jsval \<Rightarrow> jsval" where
  "cleanItem item =
     (if isPlainObject item \<and> truthy (getProp item ''$ctx'') then omit ''$ctx'' item else item)"

text \<open>The message with the scope in front: \<open>this._scope ? `${this._scope} : ${message}` : message\<close>.\<close>

definition scopedMessage :: "Logger \<Rightarrow> string \<Rightarrow> string" where
  "scopedMessage lg message =
     (case l_scope lg of
        None \<Rightarrow> message
      | Some scope \<Rightarrow> if scope \<noteq> [] then scope @ '' : '' @ message else message)"

text \<open>
  The conversion of the auxiliary data to plain data. The cleaned list \<open>dataToStringify\<close>
  is built as in the source, and, as in the source, what is serialised is \<open>data\<close>.
  A failing conversion is caught and leaves \<open>plainData\<close> undefined.
\<close>

definition plainData :: "jsval list \<Rightarrow> jsval" where
  "plainData data =
     (if length data > 0 then
        let dataToStringify = map cleanItem data
        in (case JSON_clone (if length data = 1 then data ! 0 else JArr data) of
              Inl e \<Rightarrow> JUndefined
            | Inr j \<Rightarrow> j)
      else JUndefined)"

text \<open>
  \<open>_log\<close>. The caller's file path is computed by the source and then not used, so it has
  no counterpart here. The result is \<open>Inl\<close> of the error thrown or \<open>Inr ()\<close>, with the
  state reached.
\<close>

definition Logger_log ::
  "Logger \<Rightarrow> level \<Rightarrow> string \<Rightarrow> jsval list \<Rightarrow> tstate \<Rightarrow> (jserror + unit) \<times> tstate" where
  "Logger_log lg lv message data st =
     (case l_driver lg of
        None \<Rightarrow> (Inl (Error ''no log driver provided''), st)
      | Some driver \<Rightarrow>
          if env_LOG_SILENT st = Some ''true'' then (Inr (), st)
          else
            let currentLevelIdx = indexOf (map Some LOG_LEVELS) (l_level lg);
                levelIdx = indexOf (map Some LOG_LEVELS) (Some lv)
            in
              if levelIdx < 0 \<or> levelIdx > currentLevelIdx then (Inr (), st)
              else
                (Inr (),
                 emit (LogCall driver lv (scopedMessage lg message) (plainData data)
                         (map_option (\<lambda>c. c_ref (self c)) (l_traceCtx lg))) st))"

definition Logger_debug :: "Logger \<Rightarrow> string \<Rightarrow> jsval list \<Rightarrow> tstate \<Rightarrow> (jserror + unit) \<times> tstate" where
  "Logger_debug lg message data st = Logger_log lg LvDebug message data st"

definition Logger_verbose :: "Logger \<Rightarrow> string \<Rightarrow> jsval list \<Rightarrow> tstate \<Rightarrow> (jserror + unit) \<times> tstate" where
  "Logger_verbose lg message data st = Logger_log lg LvVerbose message data st"

definition Logger_info :: "Logger \<Rightarrow> string \<Rightarrow> jsval list \<Rightarrow> tstate \<Rightarrow> (jserror + unit) \<times> tstate" where
  "Logger_info lg message data st = Logger_log lg LvInfo message data st"

definition Logger_warn :: "Logger \<Rightarrow> string \<Rightarrow> jsval list \<Rightarrow> tstate \<Rightarrow> (jserror + unit) \<times> tstate" where
  "Logger_warn lg message data st = Logger_log lg LvWarn message data st"

definition Logger_error :: "Logger \<Rightarrow> string \<Rightarrow> jsval list \<Rightarrow> tstate \<Rightarrow> (jserror + unit) \<times> tstate" where
  "Logger_error lg message data st = Logger_log lg LvError message data st"

text \<open>\<open>TraceContext.errorNotify\<close>: forwards to the trace driver when one is configured.\<close>

definition errorNotify :: "TraceContext \<Rightarrow> jserror \<Rightarrow> tstate \<Rightarrow> tstate" where
  "errorNotify ctx err st =
     (case tc_traceDriver st of None \<Rightarrow> st | Some d \<Rightarrow> emit (ErrorNotify d err) st)"

text \<open>
  \<open>critical\<close>: an error-level log, then \<open>this._traceCtx.errorNotify(new Error(message))\<close>.
  The method call on an absent context is the \<open>TypeError\<close> of reading a property of
  \<open>undefined\<close>.
\<close>

definition Logger_critical :: "Logger \<Rightarrow> string \<Rightarrow> jsval list \<Rightarrow> tstate \<Rightarrow> (jserror + unit) \<times> tstate" where
  "Logger_critical lg message data st =
     (case Logger_log lg LvError message data st of
        (Inl e, st') \<Rightarrow> (Inl e, st')
      | (Inr u, st') \<Rightarrow>
          (case l_traceCtx lg of
             None \<Rightarrow>
               (Inl (TypeError ''Cannot read properties of undefined (reading errorNotify)''), st')
           | Some ctx \<Rightarrow> (Inr (), errorNotify ctx (Error message) st')))"

text \<open>\<open>fork\<close>: \<open>[this._scope, scope].filter(Boolean).join(".")\<close>.\<close>

definition join :: "string \<Rightarrow> string list \<Rightarrow> string" where
  "join sep xs = (case xs of [] \<Rightarrow> [] | y # ys \<Rightarrow> foldl (\<lambda>acc s. acc @ sep @ s) y ys)"

definition Logger_fork :: "Logger \<Rightarrow> string \<Rightarrow> tstate \<Rightarrow> Logger" where
  "Logger_fork lg scope st =
     Logger_new
       \<lparr> lc_driver = l_driver lg,
         lc_level = None,
         lc_scope = Some (join ''.'' (filter (\<lambda>s. s \<noteq> [])
                      ((case l_scope lg of None \<Rightarrow> [] | Some s \<Rightarrow> [s]) @ [scope]))),
         lc_traceCtx = l_traceCtx lg \<rparr> st"


section \<open>Libraries the tracer calls\<close>

subsection \<open>\<open>_.merge\<close>\<close>

text \<open>
  \<open>_.merge(object, ...sources)\<close> of lodash on values: own properties of each truthy
  source are merged into the destination from left to right, so a later source wins;
  plain objects and arrays are merged recursively into a destination value of the same
  kind or else into a fresh \<open>{}\<close> or \<open>[]\<close>; any other object (here a context) is assigned
  by reference; an \<open>undefined\<close> source value is assigned only where the key is missing.
  An array met by a plain object at the same key keeps its elements (lodash would add
  the object's keys to the array object); a context as a destination or as a whole
  source is left alone. Neither occurs in the results below.
\<close>

fun setProp :: "(string \<times> jsval) list \<Rightarrow> string \<Rightarrow> jsval \<Rightarrow> (string \<times> jsval) list" where
  "setProp [] k v = [(k, v)]"
| "setProp ((k', v') # kvs) k v =
     (if k' = k then (k, v) # kvs else (k', v') # setProp kvs k v)"

fun mergeValue :: "jsval \<Rightarrow> bool \<Rightarrow> jsval \<Rightarrow> jsval"
  and mergeProps :: "(string \<times> jsval) list \<Rightarrow> (string \<times> jsval) list \<Rightarrow> (string \<times> jsval) list"
  and mergeElems :: "jsval list \<Rightarrow> jsval list \<Rightarrow> jsval list" where
  "mergeValue objValue present (JArr src) =
     JArr (mergeElems (case objValue of JArr t \<Rightarrow> t | _ \<Rightarrow> []) src)"
| "mergeValue objValue present (JObj src) =
     (case objValue of
        JObj t \<Rightarrow> JObj (mergeProps t src)
      | JArr t \<Rightarrow> JArr t
      | JCtx r \<Rightarrow> JCtx r
      | _ \<Rightarrow> JObj (mergeProps [] src))"
| "mergeValue objValue present (JCtx r) = JCtx r"
| "mergeValue objValue present JUndefined = (if present then objValue else JUndefined)"
| "mergeValue objValue present JNull = JNull"
| "mergeValue objValue present (JBool b) = JBool b"
| "mergeValue objValue present (JNum n) = JNum n"
| "mergeValue objValue present (JStr s) = JStr s"
| "mergeProps t [] = t"
| "mergeProps t (kv # src) =
     mergeProps
       (setProp t (fst kv)
          (mergeValue (case map_of t (fst kv) of Some v \<Rightarrow> v | None \<Rightarrow> JUndefined)
             (map_of t (fst kv) \<noteq> None) (snd kv)))
       src"
| "mergeElems t [] = t"
| "mergeElems [] (s # src) = mergeValue JUndefined False s # mergeElems [] src"
| "mergeElems (t # ts) (s # src) = mergeValue t True s # mergeElems ts src"

text \<open>Decimal text of a number, for the index keys of an array or a string.\<close>

fun show_nat :: "nat \<Rightarrow> string" where
  "show_nat n =
     (if n < 10 then [''0123456789'' ! n]
      else show_nat (n div 10) @ [''0123456789'' ! (n mod 10)])"

definition show_int :: "int \<Rightarrow> string" where
  "show_int i = (if i < 0 then ''-'' @ show_nat (nat (- i)) else show_nat (nat i))"

text \<open>The own enumerable properties a top-level source contributes.\<close>

fun props_of :: "jsval \<Rightarrow> (string \<times> jsval) list" where
  "props_of (JObj kvs) = kvs"
| "props_of (JArr vs) = zip (map show_nat [0..<length vs]) vs"
| "props_of (JStr s) = zip (map show_nat [0..<length s]) (map (\<lambda>c. JStr [c]) s)"
| "props_of _ = []"

definition merge :: "jsval list \<Rightarrow> jsval" where
  "merge sources =
     JObj (foldl (\<lambda>t s. if truthy s then mergeProps t (props_of s) else t) [] sources)"

subsection \<open>\<open>JSON\<close> text, \<open>lz-string\<close>, \<open>_.get\<close> and \<open>_.set\<close>\<close>

text \<open>
  What the hash codec and the argument logging need of third-party code is a parameter of
  the model: the two \<open>lz-string\<close> functions (\<open>compressToBase64\<close> takes \<open>undefined\<close> as
  well, \<open>decompressFromBase64\<close> may return \<open>null\<close>), the text \<open>JSON.stringify\<close> writes for
  a JSON document and the document \<open>JSON.parse\<close> reads from a text (\<open>None\<close>: not JSON),
  and the path functions of lodash.
\<close>

record libs =
  compressToBase64 :: "string option \<Rightarrow> string"
  decompressFromBase64 :: "string \<Rightarrow> string option"
  json_text :: "jsval \<Rightarrow> string"
  json_read :: "string \<Rightarrow> jsval option"
  lodash_get :: "jsval \<Rightarrow> string \<Rightarrow> jsval"
  lodash_set :: "jsval \<Rightarrow> string option \<Rightarrow> jsval \<Rightarrow> jsval"

definition JSON_stringify :: "libs \<Rightarrow> jsval \<Rightarrow> jserror + string option" where
  "JSON_stringify L v =
     (case JSON_value v of
        Inl e \<Rightarrow> Inl e
      | Inr None \<Rightarrow> Inr None
      | Inr (Some j) \<Rightarrow> Inr (Some (json_text L j)))"

text \<open>\<open>JSON.parse\<close> converts its argument to a string first: \<open>null\<close> is read as the text \<open>null\<close>.\<close>

definition JSON_parse :: "libs \<Rightarrow> string option \<Rightarrow> jserror + jsval" where
  "JSON_parse L s =
     (case json_read L (case s of None \<Rightarrow> ''null'' | Some t \<Rightarrow> t) of
        None \<Rightarrow> Inl (SyntaxError ''Unexpected token in JSON'')
      | Some j \<Rightarrow> Inr j)"

section \<open>The hash codec (\<open>utils.ts\<close>)\<close>

definition TRACE_HASH_PREFIX :: string where
  "TRACE_HASH_PREFIX = ''$TRACE_HASH_''"

text \<open>\<open>s.replace(pattern, replacement)\<close> with a string pattern: the first occurrence only.\<close>

fun replace :: "string \<Rightarrow> string \<Rightarrow> string \<Rightarrow> string" where
  "replace [] pat rep = (if pat = [] then rep else [])"
| "replace (c # cs) pat rep =
     (if take (length pat) (c # cs) = pat then rep @ drop (length pat) (c # cs)
      else c # replace cs pat rep)"

definition startsWith :: "string \<Rightarrow> string \<Rightarrow> bool" where
  "startsWith s p = (take (length p) s = p)"

definition hashEncode :: "libs \<Rightarrow> jsval \<Rightarrow> jserror + string" where
  "hashEncode L hashData =
     (case JSON_stringify L hashData of
        Inl e \<Rightarrow> Inl e
      | Inr t \<Rightarrow> Inr (TRACE_HASH_PREFIX @ compressToBase64 L t))"

definition hashDecode :: "libs \<Rightarrow> string \<Rightarrow> jserror + jsval" where
  "hashDecode L hash =
     (let base64Hash = replace hash TRACE_HASH_PREFIX [];
          hashDataStr = decompressFromBase64 L base64Hash
      in JSON_parse L hashDataStr)"

section \<open>The trace context (\<open>context.ts\<close>): operations\<close>

record ITraceContextConfig =
  cfg_id :: "string option"
  cfg_autoTracing :: "bool option"
  cfg_callStackNamesChain :: "ICallStackNamesChainItem list option"
  cfg_className :: "string option"
  cfg_data :: jsval
  cfg_filePath :: "string option"
  cfg_fnArgs :: jsval
  cfg_fnArgsToLog :: "string list option"
  cfg_fnName :: "string option"
  cfg_parent :: "TraceContext option"
  cfg_serviceColor :: "string option"
  cfg_serviceName :: "string option"
  cfg_spanHash :: "string option"

text \<open>The config \<open>{}\<close>: every option undefined.\<close>

definition empty_config :: ITraceContextConfig where
  "empty_config =
     \<lparr> cfg_id = None, cfg_autoTracing = None, cfg_callStackNamesChain = None,
       cfg_className = None, cfg_data = JUndefined, cfg_filePath = None,
       cfg_fnArgs = JUndefined, cfg_fnArgsToLog = None, cfg_fnName = None,
       cfg_parent = None, cfg_serviceColor = None, cfg_serviceName = None,
       cfg_spanHash = None \<rparr>"

text \<open>\<open>a ?? b\<close> on an optional value.\<close>

definition orElse :: "'a option \<Rightarrow> 'a option \<Rightarrow> 'a option" where
  "orElse a b = (case a of Some x \<Rightarrow> Some x | None \<Rightarrow> b)"

text \<open>\<open>nanoid()\<close>: the next identifier of the stream.\<close>

definition nanoid :: "tstate \<Rightarrow> string \<times> tstate" where
  "nanoid st = (nanoid_pool st (nanoid_used st), st\<lparr> nanoid_used := Suc (nanoid_used st) \<rparr>)"

text \<open>
  The constructor. The new object gets a fresh identity and is entered among the live
  contexts. The owned logger is \<open>new Logger({driver: TraceContext._logDriver, level:
  TraceContext.logLevel, traceCtx: this})\<close>, whose level falls back to \<open>Logger.level\<close>.
  The last statement passes the parent's data down:
  \<open>this.data = _.merge({}, this.data, this._parent.data)\<close>.
\<close>

definition TraceContext_new :: "ITraceContextConfig \<Rightarrow> tstate \<Rightarrow> TraceContext \<times> tstate" where
  "TraceContext_new config st =
     (let (ident, st1) = (case cfg_id config of Some i \<Rightarrow> (i, st) | None \<Rightarrow> nanoid st);
          r = next_ref st1;
          this = Ctx
            \<lparr> c_ref = r,
              c_id = ident,
              c_autoTracing = (case cfg_autoTracing config of Some b \<Rightarrow> b | None \<Rightarrow> True),
              c_serviceName = orElse (cfg_serviceName config) (tc_serviceName st1),
              c_serviceColor = orElse (cfg_serviceColor config) (tc_serviceColor st1),
              c_callStackNamesChain = cfg_callStackNamesChain config,
              c_className = cfg_className config,
              c_filePath = cfg_filePath config,
              c_fnArgs = cfg_fnArgs config,
              c_fnArgsToLog = cfg_fnArgsToLog config,
              c_fnName = cfg_fnName config,
              c_spanHash = cfg_spanHash config,
              c_span = None,
              c_data =
                (case cfg_parent config of
                   None \<Rightarrow> cfg_data config
                 | Some p \<Rightarrow>
                     if truthy (c_data (self p))
                     then merge [cfg_data config, c_data (self p)]
                     else cfg_data config),
              c_logDriver = tc_logDriver st1,
              c_logLevel = orElse (tc_logLevel st1) (Logger_level st1) \<rparr>
            (cfg_parent config)
      in (this, st1\<lparr> next_ref := Suc r, live := (live st1)(r := Some this) \<rparr>))"

text \<open>The getter \<open>logger\<close>: the logger the constructor made.\<close>

definition logger_of :: "TraceContext \<Rightarrow> Logger" where
  "logger_of ctx =
     \<lparr> l_traceCtx = Some ctx, l_driver = c_logDriver (self ctx),
       l_level = c_logLevel (self ctx), l_scope = None \<rparr>"

text \<open>\<open>isShared\<close>: \<open>this === TraceContext.shared\<close>, a comparison of identities.\<close>

definition isShared :: "tstate \<Rightarrow> TraceContext \<Rightarrow> bool" where
  "isShared st ctx =
     (case tc_shared st of None \<Rightarrow> False | Some s \<Rightarrow> c_ref (self s) = c_ref (self ctx))"

text \<open>A string that is set and not empty, as \<open>if (s)\<close> and \<open>s || t\<close> test it.\<close>

definition nonEmpty :: "string option \<Rightarrow> bool" where
  "nonEmpty s = (case s of None \<Rightarrow> False | Some t \<Rightarrow> t \<noteq> [])"

text \<open>The frame a context contributes: \<open>{className, fnName: fnName || id, serviceName}\<close>.\<close>

definition frame_of :: "TraceContext \<Rightarrow> ICallStackNamesChainItem" where
  "frame_of ctx =
     \<lparr> fnName = (case c_fnName (self ctx) of
                    Some n \<Rightarrow> if n \<noteq> [] then n else c_id (self ctx)
                  | None \<Rightarrow> c_id (self ctx)),
       className = c_className (self ctx),
       serviceName = c_serviceName (self ctx) \<rparr>"

text \<open>
  The \<open>while (nextParent)\<close> loop of \<open>_evalCallStackNamesChain\<close>: an ancestor that carries a
  chain of its own ends the walk with that chain in front; any other ancestor puts its
  frame in front and the walk goes on with its parent.
\<close>

fun walk :: "TraceContext option \<Rightarrow> ICallStackNamesChainItem list \<Rightarrow> ICallStackNamesChainItem list" where
  "walk None names = names"
| "walk (Some (Ctx f p)) names =
     (case c_callStackNamesChain f of
        Some chain \<Rightarrow> chain @ names
      | None \<Rightarrow> walk p (frame_of (Ctx f p) # names))"

definition evalCallStackNamesChain :: "tstate \<Rightarrow> TraceContext \<Rightarrow> ICallStackNamesChainItem list" where
  "evalCallStackNamesChain st ctx =
     (if isShared st ctx then []
      else case c_callStackNamesChain (self ctx) of
             Some chain \<Rightarrow> chain
           | None \<Rightarrow> walk (c_parent ctx) [frame_of ctx])"

text \<open>
  The getter \<open>callStackName\<close>. The loop state is the service and class of the current
  group, the finished groups and the names of the current group.
\<close>

record nameState =
  currServiceName :: "string option"
  currClassName :: "string option"
  names :: "string list"
  currNames :: "string list"

definition prefixFirst :: "string \<Rightarrow> string list \<Rightarrow> string list" where
  "prefixFirst p xs = (case xs of [] \<Rightarrow> [] | y # ys \<Rightarrow> (p @ y) # ys)"

definition nameStep :: "string option \<Rightarrow> nameState \<Rightarrow> ICallStackNamesChainItem \<Rightarrow> nameState" where
  "nameStep globalService s item =
     (if className item \<noteq> currClassName s \<or> serviceName item \<noteq> currServiceName s then
        let names' = (if currNames s \<noteq> [] then names s @ [join ''.'' (currNames s)] else names s);
            itemNames =
              (case className item of
                 Some c \<Rightarrow> if c \<noteq> [] then [c, fnName item] else [fnName item]
               | None \<Rightarrow> [fnName item]);
            itemNames' =
              (case serviceName item of
                 Some sv \<Rightarrow>
                   if sv \<noteq> [] \<and> Some sv \<noteq> currServiceName s \<and> Some sv \<noteq> globalService
                   then prefixFirst (''['' @ sv @ '']'') itemNames
                   else itemNames
               | None \<Rightarrow> itemNames)
        in \<lparr> currServiceName = serviceName item, currClassName = className item,
             names = names', currNames = [join '':'' itemNames'] \<rparr>
      else s\<lparr> currNames := currNames s @ [join '':'' [fnName item]] \<rparr>)"

definition renderChain :: "string option \<Rightarrow> ICallStackNamesChainItem list \<Rightarrow> string" where
  "renderChain globalService chain =
     (let s = foldl (nameStep globalService)
                \<lparr> currServiceName = globalService, currClassName = None,
                  names = [], currNames = [] \<rparr> chain
      in join ''->'' (if currNames s \<noteq> [] then names s @ [join ''.'' (currNames s)] else names s))"

definition callStackName :: "tstate \<Rightarrow> TraceContext \<Rightarrow> string" where
  "callStackName st ctx = renderChain (tc_serviceName st) (evalCallStackNamesChain st ctx)"

text \<open>
  \<open>toHash\<close>: the snapshot is the object literal of the source, with \<open>spanHash\<close> added when
  a span is attached; an absent string is the value \<open>undefined\<close>.
\<close>

definition js_of_string :: "string option \<Rightarrow> jsval" where
  "js_of_string s = (case s of None \<Rightarrow> JUndefined | Some t \<Rightarrow> JStr t)"

definition js_of_item :: "ICallStackNamesChainItem \<Rightarrow> jsval" where
  "js_of_item item =
     JObj [(''className'', js_of_string (className item)),
           (''fnName'', JStr (fnName item)),
           (''serviceName'', js_of_string (serviceName item))]"

definition hashData_of :: "tstate \<Rightarrow> TraceContext \<Rightarrow> jsval" where
  "hashData_of st ctx =
     JObj ([(''callStackNamesChain'', JArr (map js_of_item (evalCallStackNamesChain st ctx))),
            (''className'', js_of_string (c_className (self ctx))),
            (''data'', c_data (self ctx)),
            (''fnName'', js_of_string (c_fnName (self ctx))),
            (''id'', JStr (c_id (self ctx))),
            (''serviceName'', js_of_string (tc_serviceName st))]
           @ (case c_span (self ctx) of
                None \<Rightarrow> []
              | Some sp \<Rightarrow> [(''spanHash'', JStr (span_hash st sp))]))"

definition toHash :: "libs \<Rightarrow> TraceContext \<Rightarrow> tstate \<Rightarrow> jserror + string" where
  "toHash L ctx st = hashEncode L (hashData_of st ctx)"

text \<open>
  \<open>fromHash\<close> hands the decoded value to the constructor as its config. The constructor
  reads the options off that value: reading a property of \<open>null\<close> throws, a missing
  property is \<open>undefined\<close>. The options are read at the types \<open>ITraceHashData\<close> declares
  (a string, a list of chain items, any data); a decoded value with a field of another
  type, or with options a snapshot never has, is outside this model.
\<close>

definition as_string :: "jsval \<Rightarrow> string option" where
  "as_string v = (case v of JStr s \<Rightarrow> Some s | _ \<Rightarrow> None)"

definition item_of_js :: "jsval \<Rightarrow> ICallStackNamesChainItem" where
  "item_of_js v =
     \<lparr> fnName = (case getProp v ''fnName'' of JStr s \<Rightarrow> s | _ \<Rightarrow> []),
       className = as_string (getProp v ''className''),
       serviceName = as_string (getProp v ''serviceName'') \<rparr>"

definition config_of_js :: "jsval \<Rightarrow> jserror + ITraceContextConfig" where
  "config_of_js v =
     (case v of
        JNull \<Rightarrow> Inl (TypeError ''Cannot read properties of null (reading id)'')
      | _ \<Rightarrow>
          Inr (empty_config
                 \<lparr> cfg_id := as_string (getProp v ''id''),
                   cfg_callStackNamesChain :=
                     (case getProp v ''callStackNamesChain'' of
                        JArr items \<Rightarrow> Some (map item_of_js items)
                      | _ \<Rightarrow> None),
                   cfg_className := as_string (getProp v ''className''),
                   cfg_data := getProp v ''data'',
                   cfg_fnName := as_string (getProp v ''fnName''),
                   cfg_serviceName := as_string (getProp v ''serviceName''),
                   cfg_spanHash := as_string (getProp v ''spanHash'') \<rparr>))"

definition fromHash :: "libs \<Rightarrow> string \<Rightarrow> tstate \<Rightarrow> (jserror + TraceContext) \<times> tstate" where
  "fromHash L hash st =
     (case hashDecode L hash of
        Inl e \<Rightarrow> (Inl e, st)
      | Inr hashData \<Rightarrow>
          (case config_of_js hashData of
             Inl e \<Rightarrow> (Inl e, st)
           | Inr config \<Rightarrow> (let (ctx, st') = TraceContext_new config st in (Inr ctx, st'))))"

text \<open>
  \<open>traceStart\<close>: with a trace driver, auto tracing on and a function name, the driver
  starts a span (a new identity) parented to the parent's span or span hash, and the span
  is attached to the context.
\<close>

definition traceStart :: "TraceContext \<Rightarrow> tstate \<Rightarrow> TraceContext \<times> tstate" where
  "traceStart ctx st =
     (case tc_traceDriver st of
        None \<Rightarrow> (ctx, st)
      | Some d \<Rightarrow>
          if c_autoTracing (self ctx) \<and> nonEmpty (c_fnName (self ctx)) then
            let sp = next_ref st;
                ctx' = Ctx ((self ctx)\<lparr> c_span := Some sp \<rparr>) (c_parent ctx)
            in (ctx',
                emit (SpanStart d sp (case c_fnName (self ctx) of Some n \<Rightarrow> n | None \<Rightarrow> [])
                        (Option.bind (c_parent ctx) (\<lambda>p. c_span (self p)))
                        (Option.bind (c_parent ctx) (\<lambda>p. c_spanHash (self p)))
                        (tc_serviceName st))
                  (st\<lparr> next_ref := Suc sp, live := (live st)(c_ref (self ctx) := Some ctx') \<rparr>))
          else (ctx, st))"

text \<open>
  \<open>traceFinish\<close>: \<open>if (this.span) { this.span.status = status; this.span.finish(); }\<close>,
  the status defaulting to \<open>OK\<close>.
\<close>

definition traceFinish :: "TraceContext \<Rightarrow> SpanStatus option \<Rightarrow> tstate \<Rightarrow> tstate" where
  "traceFinish ctx status st =
     (case c_span (self ctx) of
        None \<Rightarrow> st
      | Some sp \<Rightarrow>
          emit (SpanFinish sp)
            (emit (SpanSetStatus sp (case status of None \<Rightarrow> OK | Some s \<Rightarrow> s)) st))"

text \<open>\<open>TraceContext.sharedInit\<close>.\<close>

record ITraceContextSharedInitConfig =
  si_injectMode :: "TraceContextInjectMode option"
  si_logDriver :: "logDriver option"
  si_logLevel :: "level option"
  si_shouldLogStartEnd :: "bool option"
  si_serviceColor :: "string option"
  si_serviceName :: "string option"
  si_traceDriver :: "traceDriver option"
  si_shouldRecordTracing :: "bool option"

definition sharedInit :: "ITraceContextSharedInitConfig \<Rightarrow> tstate \<Rightarrow> TraceContext \<times> tstate" where
  "sharedInit config st =
     (case tc_shared st of
        Some shared \<Rightarrow> (shared, st)
      | None \<Rightarrow>
          let (logDriver, st1) =
                (case si_logDriver config of
                   Some d \<Rightarrow> (d, st)
                 | None \<Rightarrow> (ConsoleLogDriver (next_ref st), st\<lparr> next_ref := Suc (next_ref st) \<rparr>));
              st2 = st1\<lparr> tc_serviceName := si_serviceName config,
                         tc_serviceColor := si_serviceColor config,
                         tc_traceDriver := si_traceDriver config,
                         tc_logDriver := Some logDriver,
                         tc_logLevel := si_logLevel config \<rparr>;
              (shared, st3) = TraceContext_new (empty_config\<lparr> cfg_fnName := Some ''main'' \<rparr>) st2;
              st4 = st3\<lparr> tc_shared := Some shared,
                         tc_injectMode := Some (case si_injectMode config of
                                                  Some m \<Rightarrow> m | None \<Rightarrow> AS_ARG),
                         tc_shouldLogStartEnd :=
                           (case si_shouldLogStartEnd config of Some b \<Rightarrow> b | None \<Rightarrow> True),
                         tc_shouldRecordTracing :=
                           (case si_shouldRecordTracing config of Some b \<Rightarrow> b | None \<Rightarrow> True),
                         Logger_level := si_logLevel config \<rparr>;
              st5 = (case tc_traceDriver st4 of
                       None \<Rightarrow> st4
                     | Some d \<Rightarrow> emit (TraceInit d) st4);
              st6 = (case tc_logDriver st5 of
                       None \<Rightarrow> st5
                     | Some d \<Rightarrow> emit (LogInit d (tc_serviceName st5)) st5)
          in (shared, st6))"

definition sharedExists :: "tstate \<Rightarrow> bool" where
  "sharedExists st = (tc_shared st \<noteq> None)"

section \<open>Predicates the results are stated with\<close>

text \<open>
  JSON data: a value built from null, booleans, numbers, strings, arrays and plain
  objects only, with no \<open>undefined\<close> and no context reference anywhere inside.
\<close>

fun json_data :: "jsval \<Rightarrow> bool" where
  "json_data JUndefined = False"
| "json_data JNull = True"
| "json_data (JBool b) = True"
| "json_data (JNum n) = True"
| "json_data (JStr s) = True"
| "json_data (JArr vs) = (\<forall>v \<in> set vs. json_data v)"
| "json_data (JObj kvs) = (\<forall>kv \<in> set kvs. json_data (snd kv))"
| "json_data (JCtx r) = False"

text \<open>
  Object identities are handed out in increasing order, so the shared context, once it
  exists, has an identity below the next one.
\<close>

definition fresh_refs :: "tstate \<Rightarrow> bool" where
  "fresh_refs st =
     (case tc_shared st of None \<Rightarrow> True | Some s \<Rightarrow> c_ref (self s) < next_ref st)"

text \<open>The JSON document of a chain item: its absent names are absent.\<close>

definition json_of_item :: "ICallStackNamesChainItem \<Rightarrow> jsval" where
  "json_of_item item =
     JObj ((case className item of None \<Rightarrow> [] | Some c \<Rightarrow> [(''className'', JStr c)])
           @ [(''fnName'', JStr (fnName item))]
           @ (case serviceName item of None \<Rightarrow> [] | Some s \<Rightarrow> [(''serviceName'', JStr s)]))"

section \<open>Function instrumentation (\<open>traceFn\<close>)\<close>

text \<open>
  A function value: its \<open>name\<close>, the parameter names \<open>getFnArgNames\<close> reads off its source
  text (\<open>None\<close> when it gives up after 150 tries and throws), and its behaviour on
  arguments: it returns a value, returns a promise, or throws, and may change the state.
\<close>

datatype outcome = Returned jsval | ReturnedPromise nat | Thrown jserror

record jsfn =
  fn_name :: string
  fn_argNames :: "string list option"
  fn_body :: "jsval list \<Rightarrow> tstate \<Rightarrow> outcome \<times> tstate"

definition getFnArgNames :: "jsfn \<Rightarrow> jserror + string list" where
  "getFnArgNames fn =
     (case fn_argNames fn of
        Some argNames \<Rightarrow> Inr argNames
      | None \<Rightarrow> Inl (Error ''Failed to get function arg names''))"

datatype logArgs = LogArgsFlag bool | LogArgsNames "string list"

text \<open>\<open>ITraceFnConfig\<close>: the options of a context (\<open>tf_context\<close>) and those of the wrapper.\<close>

record ITraceFnConfig =
  tf_context :: ITraceContextConfig
  tf_fnArgNames :: "string list option"
  tf_injectMode :: "TraceContextInjectMode option"
  tf_logArgs :: "logArgs option"
  tf_shouldLogStartEnd :: "bool option"
  tf_originalFn :: "jsfn option"
  tf_shouldRecordTracing :: "bool option"
  tf_traceHashArgPath :: "string option"

definition empty_traceFnConfig :: ITraceFnConfig where
  "empty_traceFnConfig =
     \<lparr> tf_context = empty_config, tf_fnArgNames = None, tf_injectMode = None,
       tf_logArgs = None, tf_shouldLogStartEnd = None, tf_originalFn = None,
       tf_shouldRecordTracing = None, tf_traceHashArgPath = None \<rparr>"

text \<open>
  What the closure returned by \<open>traceFn\<close> holds: the merged context config, the wrapper's
  own config, the function to call and its parameter names.
\<close>

record TracedFn =
  w_config :: ITraceContextConfig
  w_traceFnConfig :: ITraceFnConfig
  w_fnToCall :: jsfn
  w_argNames :: "string list"

datatype traceFnArg = ArgString string | ArgConfig ITraceFnConfig | ArgFunction jsfn | ArgNone

text \<open>
  \<open>traceFn\<close> up to the closure: the overloads are told apart by the kinds of the
  arguments; \<open>Inr None\<close> is the \<open>null\<close> returned when there is no function to call. In
  \<open>{...config, ...traceFnConfig}\<close> an option of the config wins over the name given as a
  string when it is set.
\<close>

definition traceFn :: "traceFnArg \<Rightarrow> traceFnArg \<Rightarrow> jsfn option \<Rightarrow> jserror + TracedFn option" where
  "traceFn fnNameOrConfigOrFn fnToTraceOrConfig fnToTrace =
     (let fnName0 = (case fnNameOrConfigOrFn of ArgString s \<Rightarrow> Some s | _ \<Rightarrow> None);
          traceFnConfig1 =
            (case fnNameOrConfigOrFn of ArgConfig c \<Rightarrow> c | _ \<Rightarrow> empty_traceFnConfig);
          fnToCall1 = (case fnNameOrConfigOrFn of ArgFunction f \<Rightarrow> Some f | _ \<Rightarrow> fnToTrace);
          fnToCall = (case fnToTraceOrConfig of ArgFunction f \<Rightarrow> Some f | _ \<Rightarrow> fnToCall1);
          traceFnConfig = (case fnToTraceOrConfig of ArgConfig c \<Rightarrow> c | _ \<Rightarrow> traceFnConfig1);
          fnToGetInfoFrom = orElse (tf_originalFn traceFnConfig) fnToCall;
          config = (tf_context traceFnConfig)
                     \<lparr> cfg_fnName := orElse (cfg_fnName (tf_context traceFnConfig)) fnName0 \<rparr>
      in case fnToCall of
           None \<Rightarrow> Inr None
         | Some f \<Rightarrow>
             (case (case tf_fnArgNames traceFnConfig of
                      Some argNames \<Rightarrow> Inr argNames
                    | None \<Rightarrow> (case fnToGetInfoFrom of
                                 Some g \<Rightarrow> getFnArgNames g
                               | None \<Rightarrow> Inr [])) of
                Inl e \<Rightarrow> Inl e
              | Inr argNames \<Rightarrow>
                  Inr (Some
                    \<lparr> w_config = config
                        \<lparr> cfg_fnName := orElse (cfg_fnName config) (map_option fn_name fnToGetInfoFrom) \<rparr>,
                      w_traceFnConfig = traceFnConfig,
                      w_fnToCall = f,
                      w_argNames = argNames \<rparr>)))"

text \<open>
  The search for a parent among the arguments. The two variables keep their values from
  one argument to the next; the loop stops at the first argument after which one of them
  is truthy. \<open>$ctx\<close> is read as a context and \<open>$traceHash\<close> as a string, their declared
  types.
\<close>

definition ctx_of :: "tstate \<Rightarrow> jsval \<Rightarrow> TraceContext option" where
  "ctx_of st v = (case v of JCtx r \<Rightarrow> live st r | _ \<Rightarrow> None)"

fun findParent ::
  "tstate \<Rightarrow> TraceContext option \<times> string option \<Rightarrow> jsval list
     \<Rightarrow> TraceContext option \<times> string option" where
  "findParent st found [] = found"
| "findParent st found (arg # args) =
     (let found' =
            (case arg of
               JObj kvs \<Rightarrow> (ctx_of st (getProp arg ''$ctx''), as_string (getProp arg ''$traceHash''))
             | JCtx r \<Rightarrow> (live st r, snd found)
             | JStr s \<Rightarrow> if startsWith s ''$TRACE_HASH_'' then (fst found, Some s) else found
             | _ \<Rightarrow> found)
      in if fst found' \<noteq> None \<or> nonEmpty (snd found') then found' else findParent st found' args)"

text \<open>The arguments echoed into the start log (\<open>logArgs\<close>).\<close>

definition nth_or_undefined :: "jsval list \<Rightarrow> nat \<Rightarrow> jsval" where
  "nth_or_undefined xs i = (if i < length xs then xs ! i else JUndefined)"

fun findIndex :: "('a \<Rightarrow> bool) \<Rightarrow> 'a list \<Rightarrow> nat option" where
  "findIndex P [] = None"
| "findIndex P (x # xs) = (if P x then Some 0 else map_option Suc (findIndex P xs))"

definition startArgsOf :: "libs \<Rightarrow> logArgs option \<Rightarrow> string list \<Rightarrow> jsval list \<Rightarrow> jsval" where
  "startArgsOf L logArgs argNames args =
     (case logArgs of
        None \<Rightarrow> JUndefined
      | Some (LogArgsFlag False) \<Rightarrow> JUndefined
      | Some (LogArgsNames keys) \<Rightarrow>
          foldl (\<lambda>startArgs key.
                   let argName = takeWhile (\<lambda>c. c \<noteq> CHR ''.'') key;
                       valPath = drop (Suc (length argName)) key
                   in case findIndex (\<lambda>name. argName = name) argNames of
                        None \<Rightarrow> startArgs
                      | Some argIdx \<Rightarrow>
                          let argVal = nth_or_undefined args argIdx;
                              valToLog = (if valPath \<noteq> [] then lodash_get L argVal valPath else argVal)
                          in lodash_set L startArgs (Some key) valToLog)
                (JObj []) keys
      | Some (LogArgsFlag True) \<Rightarrow>
          foldl (\<lambda>startArgs i.
                   lodash_set L startArgs
                     (if i < length argNames then Some (argNames ! i) else None) (args ! i))
                (JObj []) [0..<length args])"

text \<open>
  The arguments of the call: one per parameter name, the context at the parameter named
  \<open>$ctx\<close> or \<open>_$ctx\<close>, the caller's argument elsewhere, \<open>undefined\<close> where the caller gave
  none; in the mode \<open>IN_FIRST_ARG_OBJECT\<close> the context is also put into the first
  argument when that is a plain object.
\<close>

definition CTX_ARG_NAME :: "string \<Rightarrow> bool" where
  "CTX_ARG_NAME n = (n = ''$ctx'' \<or> n = ''_$ctx'')"

definition newArgsOf ::
  "TraceContextInjectMode option \<Rightarrow> nat \<Rightarrow> string list \<Rightarrow> jsval list \<Rightarrow> jsval list" where
  "newArgsOf injectMode r argNames args =
     (let newArgs =
            map (\<lambda>i. if i < length args
                      then (if CTX_ARG_NAME (argNames ! i) then JCtx r else args ! i)
                      else (if CTX_ARG_NAME (argNames ! i) then JCtx r else JUndefined))
                [0..<length argNames]
      in if injectMode = Some IN_FIRST_ARG_OBJECT then
           (case (if newArgs = [] then [JObj []] else newArgs) of
              JObj kvs # rest \<Rightarrow> JObj (setProp kvs ''$ctx'' (JCtx r)) # rest
            | other \<Rightarrow> other)
         else newArgs)"

definition message_of :: "jserror \<Rightarrow> string" where
  "message_of e = (case e of Error m \<Rightarrow> m | TypeError m \<Rightarrow> m | SyntaxError m \<Rightarrow> m)"

text \<open>
  The local function \<open>finish\<close>: the end log with the elapsed time, then \<open>traceFinish\<close> with
  the status of an error or of success.
\<close>

definition finish ::
  "TraceContext \<Rightarrow> int \<Rightarrow> bool \<Rightarrow> bool \<Rightarrow> jserror option \<Rightarrow> tstate \<Rightarrow> (jserror + unit) \<times> tstate" where
  "finish ctx startTime shouldLogStartEnd shouldRecordTracing error st =
     (let endTime = clock st
      in case (if shouldLogStartEnd
               then Logger_verbose (logger_of ctx)
                      (''end [ELAPSED='' @ show_int (endTime - startTime) @ '']'') [] st
               else (Inr (), st)) of
           (Inl e, st1) \<Rightarrow> (Inl e, st1)
         | (Inr u, st1) \<Rightarrow>
             (Inr (),
              if shouldRecordTracing
              then traceFinish ctx (Some (if error \<noteq> None then INTERNAL_ERROR else OK)) st1
              else st1))"

text \<open>The handler of a failure: the \<open>fail\<close> log, then \<open>finish(null, error)\<close>.\<close>

definition failThenFinish ::
  "TraceContext \<Rightarrow> int \<Rightarrow> bool \<Rightarrow> bool \<Rightarrow> jserror \<Rightarrow> tstate \<Rightarrow> (jserror + unit) \<times> tstate" where
  "failThenFinish ctx startTime shouldLogStartEnd shouldRecordTracing error st =
     (case Logger_error (logger_of ctx) ''fail''
             [JObj [(''fileName'', JUndefined), (''message'', JStr (message_of error))]] st of
        (Inl e, st1) \<Rightarrow> (Inl e, st1)
      | (Inr u, st1) \<Rightarrow> finish ctx startTime shouldLogStartEnd shouldRecordTracing (Some error) st1)"

text \<open>
  The wrapped function, \<open>(...args) => { ... }\<close>, in three parts. First the search for
  the parent: the configured parent or the arguments, then the hash path (a path that
  yields a function cannot arise here, values holding no functions).
\<close>

definition parentSearch ::
  "libs \<Rightarrow> TracedFn \<Rightarrow> jsval list \<Rightarrow> tstate \<Rightarrow> TraceContext option \<times> string option" where
  "parentSearch L w args st =
     (let found = (case cfg_parent (w_config w) of
                     Some p \<Rightarrow> (Some p, None)
                   | None \<Rightarrow> findParent st (None, None) args);
          parentTraceHash =
            (case tf_traceHashArgPath (w_traceFnConfig w) of
               None \<Rightarrow> snd found
             | Some path \<Rightarrow>
                 if path \<noteq> [] then
                   (case lodash_get L (JArr args) path of JStr s \<Rightarrow> Some s | _ \<Rightarrow> snd found)
                 else snd found)
      in (fst found, parentTraceHash))"

text \<open>
  Then the statements up to the call of the function: the parent is rebuilt from the hash
  when only a hash was found, the context of the call is constructed, the span started,
  the start time read, the start log emitted and the arguments of the call prepared. What
  \<open>fromHash\<close> or the logger throws leaves the wrapper. The result holds what the rest of
  the wrapper uses.
\<close>

record entered =
  e_ctx :: TraceContext
  e_startTime :: int
  e_shouldLogStartEnd :: bool
  e_shouldRecordTracing :: bool
  e_newArgs :: "jsval list"

definition enterTraced ::
  "libs \<Rightarrow> TracedFn \<Rightarrow> jsval list \<Rightarrow> tstate \<Rightarrow> (jserror + entered) \<times> tstate" where
  "enterTraced L w args st =
     (let traceFnConfig = w_traceFnConfig w;
          injectMode = orElse (tf_injectMode traceFnConfig) (tc_injectMode st);
          shouldLogStartEnd =
            (case tf_shouldLogStartEnd traceFnConfig of Some b \<Rightarrow> b | None \<Rightarrow> tc_shouldLogStartEnd st);
          shouldRecordTracing =
            (case tf_shouldRecordTracing traceFnConfig of Some b \<Rightarrow> b | None \<Rightarrow> tc_shouldRecordTracing st);
          (found, parentTraceHash) = parentSearch L w args st
      in case (case found of
                 Some p \<Rightarrow> (Inr (Some p), st)
               | None \<Rightarrow>
                   (case parentTraceHash of
                      None \<Rightarrow> (Inr None, st)
                    | Some hash \<Rightarrow>
                        if hash \<noteq> [] then
                          (case fromHash L hash st of
                             (Inl e, st0) \<Rightarrow> (Inl e, st0)
                           | (Inr p, st0) \<Rightarrow> (Inr (Some p), st0))
                        else (Inr None, st))) of
           (Inl e, st0) \<Rightarrow> (Inl e, st0)
         | (Inr parentCtx, st0) \<Rightarrow>
             let (ctx0, st1) =
                   TraceContext_new ((w_config w)\<lparr> cfg_fnArgs := JArr [], cfg_parent := parentCtx \<rparr>) st0;
                 (ctx, st2) = (if shouldRecordTracing then traceStart ctx0 st1 else (ctx0, st1));
                 startTime = clock st2;
                 startArgs = startArgsOf L (tf_logArgs traceFnConfig) (w_argNames w) args
             in case (if shouldLogStartEnd
                      then Logger_verbose (logger_of ctx) ''start'' [startArgs] st2
                      else (Inr (), st2)) of
                  (Inl e, st3) \<Rightarrow> (Inl e, st3)
                | (Inr u, st3) \<Rightarrow>
                    (Inr \<lparr> e_ctx = ctx, e_startTime = startTime,
                           e_shouldLogStartEnd = shouldLogStartEnd,
                           e_shouldRecordTracing = shouldRecordTracing,
                           e_newArgs = newArgsOf injectMode (c_ref (self ctx)) (w_argNames w) args \<rparr>,
                     st3))"

text \<open>
  Last the call and what follows it. The call \<open>fnToCall(...newArgs)\<close> stands outside the
  \<open>try\<close>: what it throws leaves the wrapper at once. A returned promise gets the two
  handlers. The \<open>try\<close> encloses the \<open>finish()\<close> of a value that was returned, the \<open>catch\<close>
  logs the failure of that \<open>finish()\<close> and finishes again.
\<close>

definition callTraced :: "libs \<Rightarrow> TracedFn \<Rightarrow> jsval list \<Rightarrow> tstate \<Rightarrow> outcome \<times> tstate" where
  "callTraced L w args st =
     (case enterTraced L w args st of
        (Inl e, st0) \<Rightarrow> (Thrown e, st0)
      | (Inr en, st3) \<Rightarrow>
          (case fn_body (w_fnToCall w) (e_newArgs en) st3 of
             (Thrown e, st4) \<Rightarrow> (Thrown e, st4)
           | (ReturnedPromise p, st4) \<Rightarrow>
               (ReturnedPromise (next_ref st4),
                st4\<lparr> next_ref := Suc (next_ref st4),
                     pending := pending st4 @
                       [\<lparr> pf_promise = p, pf_chained = next_ref st4, pf_ctx = e_ctx en,
                          pf_startTime = e_startTime en,
                          pf_shouldLogStartEnd = e_shouldLogStartEnd en,
                          pf_shouldRecordTracing = e_shouldRecordTracing en \<rparr>] \<rparr>)
           | (Returned result, st4) \<Rightarrow>
               (case finish (e_ctx en) (e_startTime en) (e_shouldLogStartEnd en)
                       (e_shouldRecordTracing en) None st4 of
                  (Inr u, st5) \<Rightarrow> (Returned result, st5)
                | (Inl error, st5) \<Rightarrow>
                    (case failThenFinish (e_ctx en) (e_startTime en) (e_shouldLogStartEnd en)
                            (e_shouldRecordTracing en) error st5 of
                       (Inl e, st6) \<Rightarrow> (Thrown e, st6)
                     | (Inr u, st6) \<Rightarrow> (Returned result, st6)))))"

text \<open>
  The handlers attached to a returned promise, run when it settles: \<open>then(finish)\<close>, and
  \<open>catch\<close> with the \<open>fail\<close> log, \<open>finish(null, error)\<close> and the error thrown again. The
  result is how the chained promise settles.
\<close>

definition settle :: "pendingFinish \<Rightarrow> jserror + jsval \<Rightarrow> tstate \<Rightarrow> (jserror + jsval) \<times> tstate" where
  "settle pf settled st =
     (let handler = (\<lambda>error s.
            case failThenFinish (pf_ctx pf) (pf_startTime pf) (pf_shouldLogStartEnd pf)
                   (pf_shouldRecordTracing pf) error s of
              (Inl e, s') \<Rightarrow> (Inl e, s')
            | (Inr u, s') \<Rightarrow> (Inl error, s'))
      in case settled of
           Inl error \<Rightarrow> handler error st
         | Inr result \<Rightarrow>
             (case finish (pf_ctx pf) (pf_startTime pf) (pf_shouldLogStartEnd pf)
                     (pf_shouldRecordTracing pf) None st of
                (Inr u, st1) \<Rightarrow> (Inr result, st1)
              | (Inl error, st1) \<Rightarrow> handler error st1))"

section \<open>Payload objects with identities\<close>

text \<open>
  Whether changing one payload changes another depends on which objects the two share.
  For that question a value carries, at every array and plain object, the identity of
  that object; \<open>erase\<close> forgets the identities, \<open>containers\<close> collects them, and
  \<open>mutate a g\<close> is a write to the object with identity \<open>a\<close>: it changes every value that
  holds this object and no other value.
\<close>

datatype lval =
    LUndefined | LNull | LBool bool | LNum int | LStr string
  | LArr nat "lval list"
  | LObj nat "(string \<times> lval) list"
  | LCtx nat

fun erase :: "lval \<Rightarrow> jsval" where
  "erase LUndefined = JUndefined"
| "erase LNull = JNull"
| "erase (LBool b) = JBool b"
| "erase (LNum n) = JNum n"
| "erase (LStr s) = JStr s"
| "erase (LArr a vs) = JArr (map erase vs)"
| "erase (LObj a kvs) = JObj (map (\<lambda>kv. (fst kv, erase (snd kv))) kvs)"
| "erase (LCtx r) = JCtx r"

fun containers :: "lval \<Rightarrow> nat set" where
  "containers (LArr a vs) = insert a (\<Union>v \<in> set vs. containers v)"
| "containers (LObj a kvs) = insert a (\<Union>kv \<in> set kvs. containers (snd kv))"
| "containers _ = {}"

fun lsetProp :: "(string \<times> lval) list \<Rightarrow> string \<Rightarrow> lval \<Rightarrow> (string \<times> lval) list" where
  "lsetProp [] k v = [(k, v)]"
| "lsetProp ((k', v') # kvs) k v =
     (if k' = k then (k, v) # kvs else (k', v') # lsetProp kvs k v)"

text \<open>
  \<open>_.merge\<close> as above, on values with identities: a destination object or array that
  is merged into keeps its identity, a \<open>{}\<close> or \<open>[]\<close> made for a source object or array
  gets the next free identity \<open>n\<close>, and a context is assigned by reference.
\<close>

fun lmergeValue :: "lval \<Rightarrow> bool \<Rightarrow> lval \<Rightarrow> nat \<Rightarrow> lval \<times> nat"
  and lmergeProps :: "(string \<times> lval) list \<Rightarrow> (string \<times> lval) list \<Rightarrow> nat \<Rightarrow> (string \<times> lval) list \<times> nat"
  and lmergeElems :: "lval list \<Rightarrow> lval list \<Rightarrow> nat \<Rightarrow> lval list \<times> nat" where
  "lmergeValue objValue present (LArr a src) n =
     (case objValue of
        LArr b t \<Rightarrow> (let r = lmergeElems t src n in (LArr b (fst r), snd r))
      | _ \<Rightarrow> (let r = lmergeElems [] src (Suc n) in (LArr n (fst r), snd r)))"
| "lmergeValue objValue present (LObj a src) n =
     (case objValue of
        LObj b t \<Rightarrow> (let r = lmergeProps t src n in (LObj b (fst r), snd r))
      | LArr b t \<Rightarrow> (LArr b t, n)
      | LCtx r \<Rightarrow> (LCtx r, n)
      | _ \<Rightarrow> (let r = lmergeProps [] src (Suc n) in (LObj n (fst r), snd r)))"
| "lmergeValue objValue present (LCtx r) n = (LCtx r, n)"
| "lmergeValue objValue present LUndefined n = (if present then objValue else LUndefined, n)"
| "lmergeValue objValue present LNull n = (LNull, n)"
| "lmergeValue objValue present (LBool b) n = (LBool b, n)"
| "lmergeValue objValue present (LNum i) n = (LNum i, n)"
| "lmergeValue objValue present (LStr s) n = (LStr s, n)"
| "lmergeProps t [] n = (t, n)"
| "lmergeProps t (kv # src) n =
     (let r = lmergeValue (case map_of t (fst kv) of Some v \<Rightarrow> v | None \<Rightarrow> LUndefined)
                (map_of t (fst kv) \<noteq> None) (snd kv) n
      in lmergeProps (lsetProp t (fst kv) (fst r)) src (snd r))"
| "lmergeElems t [] n = (t, n)"
| "lmergeElems [] (s # src) n =
     (let r = lmergeValue LUndefined False s n;
          q = lmergeElems [] src (snd r)
      in (fst r # fst q, snd q))"
| "lmergeElems (t # ts) (s # src) n =
     (let r = lmergeValue t True s n;
          q = lmergeElems ts src (snd r)
      in (fst r # fst q, snd q))"

fun mutate :: "nat \<Rightarrow> (lval \<Rightarrow> lval) \<Rightarrow> lval \<Rightarrow> lval" where
  "mutate a g (LArr b vs) = (if b = a then g (LArr b vs) else LArr b (map (mutate a g) vs))"
| "mutate a g (LObj b kvs) =
     (if b = a then g (LObj b kvs) else LObj b (map (\<lambda>kv. (fst kv, mutate a g (snd kv))) kvs))"
| "mutate a g v = v"

fun lprops_of :: "lval \<Rightarrow> (string \<times> lval) list" where
  "lprops_of (LObj a kvs) = kvs"
| "lprops_of (LArr a vs) = zip (map show_nat [0..<length vs]) vs"
| "lprops_of (LStr s) = zip (map show_nat [0..<length s]) (map (\<lambda>c. LStr [c]) s)"
| "lprops_of _ = []"

text \<open>
  \<open>_.merge({}, ...sources)\<close> with identities: the object literal \<open>{}\<close> is a new object, with
  the next free identity \<open>n\<close>; the result is the merged value and the next free identity
  after the call.
\<close>

definition lmerge :: "nat \<Rightarrow> lval list \<Rightarrow> lval \<times> nat" where
  "lmerge n sources =
     (let r = foldl (\<lambda>acc s. if truthy (erase s)
                               then lmergeProps (fst acc) (lprops_of s) (snd acc) else acc)
                ([], Suc n) sources
      in (LObj n (fst r), snd r))"

text \<open>
  A well-formed value: no plain object inside has the same key twice. A primitive: null,
  a boolean, a number or a string. \<open>hasProp\<close> is \<open>key in object\<close> for a plain object.
\<close>

fun wf :: "jsval \<Rightarrow> bool" where
  "wf (JArr vs) = (\<forall>v \<in> set vs. wf v)"
| "wf (JObj kvs) = (distinct (map fst kvs) \<and> (\<forall>kv \<in> set kvs. wf (snd kv)))"
| "wf _ = True"

fun primitive :: "jsval \<Rightarrow> bool" where
  "primitive JNull = True"
| "primitive (JBool b) = True"
| "primitive (JNum n) = True"
| "primitive (JStr s) = True"
| "primitive _ = False"

fun hasProp :: "jsval \<Rightarrow> string \<Rightarrow> bool" where
  "hasProp (JObj kvs) k = (map_of kvs k \<noteq> None)"
| "hasProp _ k = False"

section \<open>Sample configurations\<close>

text \<open>
  A process after start-up with a log driver and a trace driver, logging everything, and
  a context of that process. They are the concrete inputs at which the results below are
  evaluated.
\<close>

definition sample_ids :: "nat \<Rightarrow> string" where
  "sample_ids n = replicate (Suc n) (CHR ''A'')"

definition sample_hashes :: "nat \<Rightarrow> string" where
  "sample_hashes n = replicate (Suc n) (CHR ''h'')"

definition sample_state :: tstate where
  "sample_state =
     (initial_state sample_ids sample_hashes)
       \<lparr> tc_serviceName := Some ''svc'', tc_logLevel := Some LvVerbose,
         tc_traceDriver := Some (TraceDriver 0), tc_logDriver := Some (LogDriver 0),
         Logger_level := Some LvVerbose, next_ref := 8 \<rparr>"

definition sample_ctx :: TraceContext where
  "sample_ctx =
     Ctx \<lparr> c_ref = 7, c_id = ''P'', c_autoTracing = True, c_serviceName = Some ''svc'',
           c_serviceColor = None, c_callStackNamesChain = None, c_className = None,
           c_filePath = None, c_fnArgs = JUndefined, c_fnArgsToLog = None,
           c_fnName = Some ''f'', c_spanHash = None, c_span = None, c_data = JUndefined,
           c_logDriver = Some (LogDriver 0), c_logLevel = Some LvVerbose \<rparr> None"

definition sample_traced_ctx :: TraceContext where
  "sample_traced_ctx = Ctx ((self sample_ctx)\<lparr> c_span := Some 3 \<rparr>) None"

definition sample_logger :: Logger where
  "sample_logger =
     \<lparr> l_traceCtx = Some sample_ctx, l_driver = Some (LogDriver 0),
       l_level = Some LvVerbose, l_scope = None \<rparr>"

text \<open>
  The snapshot \<open>sample_ctx.toHash()\<close> serialises, as a JSON document, and an instance of
  the libraries given by their values at the texts the samples use: the text of that
  document and the text \<open>null\<close>; base64 payloads that are kept as they are, the empty
  payload decompressing to \<open>null\<close> as in \<open>lz-string\<close>.
\<close>

definition sample_snapshot :: jsval where
  "sample_snapshot =
     JObj [(''callStackNamesChain'',
              JArr [JObj [(''fnName'', JStr ''f''), (''serviceName'', JStr ''svc'')]]),
           (''fnName'', JStr ''f''),
           (''id'', JStr ''P''),
           (''serviceName'', JStr ''svc'')]"

definition sample_libs :: libs where
  "sample_libs =
     \<lparr> compressToBase64 = (\<lambda>t. case t of None \<Rightarrow> [] | Some s \<Rightarrow> s),
       decompressFromBase64 = (\<lambda>s. if s = [] then None else Some s),
       json_text = (\<lambda>j. if j = JNull then ''null'' else ''S''),
       json_read = (\<lambda>s. if s = ''S'' then Some sample_snapshot
                         else if s = ''null'' then Some JNull else None),
       lodash_get = getProp,
       lodash_set = (\<lambda>obj k v. case obj of
                                  JObj kvs \<Rightarrow> (case k of Some key \<Rightarrow> JObj (setProp kvs key v)
                                               | None \<Rightarrow> obj)
                                | _ \<Rightarrow> obj) \<rparr>"

text \<open>The process after \<open>sharedInit\<close> on the initial statics: the shared context and the state.\<close>

definition sample_boot_config :: ITraceContextSharedInitConfig where
  "sample_boot_config =
     \<lparr> si_injectMode = None, si_logDriver = Some (LogDriver 0), si_logLevel = Some LvVerbose,
       si_shouldLogStartEnd = None, si_serviceColor = None, si_serviceName = Some ''svc'',
       si_traceDriver = Some (TraceDriver 0), si_shouldRecordTracing = None \<rparr>"

definition sample_booted :: "TraceContext \<times> tstate" where
  "sample_booted = sharedInit sample_boot_config (initial_state sample_ids sample_hashes)"

text \<open>
  Two functions and their wrappers, as \<open>traceFn(fn)\<close> builds them: one throws the error
  \<open>E\<close>; the other takes one argument, lets five milliseconds pass and returns 42.
\<close>

definition sample_thrower :: jsfn where
  "sample_thrower =
     \<lparr> fn_name = ''f'', fn_argNames = Some [],
       fn_body = (\<lambda>args st. (Thrown (Error ''E''), st)) \<rparr>"

definition sample_answer :: jsfn where
  "sample_answer =
     \<lparr> fn_name = ''answer'', fn_argNames = Some [''hash''],
       fn_body = (\<lambda>args st. (Returned (JNum 42), st\<lparr> clock := clock st + 5 \<rparr>)) \<rparr>"

definition sample_traced_thrower :: TracedFn where
  "sample_traced_thrower =
     \<lparr> w_config = empty_config\<lparr> cfg_fnName := Some ''f'' \<rparr>,
       w_traceFnConfig = empty_traceFnConfig,
       w_fnToCall = sample_thrower,
       w_argNames = [] \<rparr>"

definition sample_traced_answer :: TracedFn where
  "sample_traced_answer =
     \<lparr> w_config = empty_config\<lparr> cfg_fnName := Some ''answer'' \<rparr>,
       w_traceFnConfig = empty_traceFnConfig,
       w_fnToCall = sample_answer,
       w_argNames = [''hash''] \<rparr>"

text \<open>
  A parent with the payload \<open>{a: 2, b: {x: 1}}\<close> and the payload \<open>{a: 1, c: 3}\<close> given to a
  child; the same two payloads with the identities 0, 1 and 2 of their objects.
\<close>

definition sample_parent_data :: jsval where
  "sample_parent_data = JObj [(''a'', JNum 2), (''b'', JObj [(''x'', JNum 1)])]"

definition sample_child_data :: jsval where
  "sample_child_data = JObj [(''a'', JNum 1), (''c'', JNum 3)]"

definition sample_parent :: TraceContext where
  "sample_parent = Ctx ((self sample_ctx)\<lparr> c_data := sample_parent_data \<rparr>) None"

definition sample_child_config :: ITraceContextConfig where
  "sample_child_config =
     empty_config\<lparr> cfg_fnName := Some ''g'', cfg_data := sample_child_data,
                   cfg_parent := Some sample_parent \<rparr>"

definition sample_parent_ldata :: lval where
  "sample_parent_ldata = LObj 0 [(''a'', LNum 2), (''b'', LObj 1 [(''x'', LNum 1)])]"

definition sample_child_ldata :: lval where
  "sample_child_ldata = LObj 2 [(''a'', LNum 1), (''c'', LNum 3)]"

section \<open>Properties of the logger\<close>

lemma indexOf_error: "indexOf (map Some LOG_LEVELS) (Some LvError) = 0"
  by (simp add: LOG_LEVELS_def)

lemma indexOf_level_nonneg: "0 \<le> indexOf (map Some LOG_LEVELS) (Some l)"
  by (cases l) (simp_all add: LOG_LEVELS_def)

text \<open>
  C9. A logger can be constructed without an output driver: the constructor is total and
  stores the absent driver. On every such logger each of the six levelled methods throws
  the error "no log driver provided" at once, whatever the level, the silent switch and
  the bound context are, and leaves the state as it was.
\<close>

theorem driverless_logger_throws_on_emit:
  assumes "lc_driver config = None"
  shows "l_driver (Logger_new config st0) = None
    \<and> Logger_debug (Logger_new config st0) message data st
        = (Inl (Error ''no log driver provided''), st)
    \<and> Logger_verbose (Logger_new config st0) message data st
        = (Inl (Error ''no log driver provided''), st)
    \<and> Logger_info (Logger_new config st0) message data st
        = (Inl (Error ''no log driver provided''), st)
    \<and> Logger_warn (Logger_new config st0) message data st
        = (Inl (Error ''no log driver provided''), st)
    \<and> Logger_error (Logger_new config st0) message data st
        = (Inl (Error ''no log driver provided''), st)
    \<and> Logger_critical (Logger_new config st0) message data st
        = (Inl (Error ''no log driver provided''), st)"
proof -
  have drv: "l_driver (Logger_new config st0) = None"
    using assms by (simp add: Logger_new_def)
  have base: "\<And>lv. Logger_log (Logger_new config st0) lv message data st
      = (Inl (Error ''no log driver provided''), st)"
    using drv by (simp add: Logger_log_def)
  show ?thesis
    using drv base
    by (simp add: Logger_debug_def Logger_verbose_def Logger_info_def Logger_warn_def
        Logger_error_def Logger_critical_def)
qed

theorem driverless_logger_throws_on_emit_witness:
  "Logger_info
     (Logger_new \<lparr> lc_driver = None, lc_level = Some LvInfo, lc_scope = None,
                   lc_traceCtx = Some sample_ctx \<rparr> sample_state)
     ''hello'' [JNum 1] sample_state
   = (Inl (Error ''no log driver provided''), sample_state)
   \<and> Logger_critical
     (Logger_new \<lparr> lc_driver = None, lc_level = Some LvInfo, lc_scope = None,
                   lc_traceCtx = Some sample_ctx \<rparr> sample_state)
     ''hello'' [JNum 1] sample_state
   = (Inl (Error ''no log driver provided''), sample_state)"
  using driverless_logger_throws_on_emit
    [of "\<lparr> lc_driver = None, lc_level = Some LvInfo, lc_scope = None,
           lc_traceCtx = Some sample_ctx \<rparr>" sample_state "''hello''" "[JNum 1]" sample_state]
  by simp

text \<open>
  C10, as the code has it. On a logger that has an output driver, \<open>critical\<close> first runs
  the error-level log step, which never throws there and emits one driver call unless the
  silent switch is on or the logger has no level; then, with a bound context, it invokes
  that context's \<open>errorNotify\<close> exactly once with \<open>Error(message)\<close> and returns; with no
  bound context it throws the \<open>TypeError\<close> of the absent receiver, after the log step.
  \<open>errorNotify\<close> itself forwards the error to the trace driver once, when one is
  configured.
\<close>

theorem critical_logs_then_notifies:
  assumes "l_driver lg = Some d"
  shows "Logger_critical lg message data st =
      (case l_traceCtx lg of
         None \<Rightarrow>
           (Inl (TypeError ''Cannot read properties of undefined (reading errorNotify)''),
            snd (Logger_log lg LvError message data st))
       | Some ctx \<Rightarrow>
           (Inr (), errorNotify ctx (Error message) (snd (Logger_log lg LvError message data st))))
    \<and> Logger_log lg LvError message data st =
      (Inr (),
       if env_LOG_SILENT st = Some ''true'' \<or> l_level lg = None then st
       else emit (LogCall d LvError (scopedMessage lg message) (plainData data)
                    (map_option (\<lambda>c. c_ref (self c)) (l_traceCtx lg))) st)
    \<and> events (errorNotify ctx' err st') =
      events st' @ (case tc_traceDriver st' of None \<Rightarrow> [] | Some t \<Rightarrow> [ErrorNotify t err])"
proof -
  have lvl: "l_level lg \<noteq> None \<Longrightarrow> 0 \<le> indexOf (map Some LOG_LEVELS) (l_level lg)"
    using indexOf_level_nonneg by (cases "l_level lg") simp_all
  have none: "indexOf (map Some LOG_LEVELS) None = -1"
    by (simp add: LOG_LEVELS_def)
  have step: "Logger_log lg LvError message data st =
      (Inr (),
       if env_LOG_SILENT st = Some ''true'' \<or> l_level lg = None then st
       else emit (LogCall d LvError (scopedMessage lg message) (plainData data)
                    (map_option (\<lambda>c. c_ref (self c)) (l_traceCtx lg))) st)"
  proof (cases "l_level lg")
    case None
    then show ?thesis
      using assms none by (simp add: Logger_log_def indexOf_error)
  next
    case (Some l)
    then show ?thesis
      using assms lvl by (simp add: Logger_log_def indexOf_error Let_def)
  qed
  have crit: "Logger_critical lg message data st =
      (case l_traceCtx lg of
         None \<Rightarrow>
           (Inl (TypeError ''Cannot read properties of undefined (reading errorNotify)''),
            snd (Logger_log lg LvError message data st))
       | Some ctx \<Rightarrow>
           (Inr (), errorNotify ctx (Error message) (snd (Logger_log lg LvError message data st))))"
    unfolding Logger_critical_def step by (simp split: option.splits)
  have notif: "events (errorNotify ctx' err st') =
      events st' @ (case tc_traceDriver st' of None \<Rightarrow> [] | Some t \<Rightarrow> [ErrorNotify t err])"
    by (simp add: errorNotify_def emit_def split: option.splits)
  show ?thesis using crit step notif by blast
qed

theorem critical_logs_then_notifies_witness:
  "Logger_critical sample_logger ''boom'' [] sample_state =
     (Inr (), sample_state\<lparr> events :=
        [LogCall (LogDriver 0) LvError ''boom'' JUndefined (Some 7),
         ErrorNotify (TraceDriver 0) (Error ''boom'')] \<rparr>)
   \<and> Logger_critical (sample_logger\<lparr> l_traceCtx := None \<rparr>) ''boom'' [] sample_state =
     (Inl (TypeError ''Cannot read properties of undefined (reading errorNotify)''),
      sample_state\<lparr> events := [LogCall (LogDriver 0) LvError ''boom'' JUndefined None] \<rparr>)"
  using critical_logs_then_notifies
      [of sample_logger "LogDriver 0" "''boom''" "[]" sample_state sample_ctx "Error ''boom''" sample_state]
    critical_logs_then_notifies
      [of "sample_logger\<lparr> l_traceCtx := None \<rparr>" "LogDriver 0" "''boom''" "[]" sample_state
          sample_ctx "Error ''boom''" sample_state]
  by (simp add: sample_logger_def sample_state_def sample_ctx_def initial_state_def
      errorNotify_def emit_def scopedMessage_def plainData_def)

text \<open>
  The claim as it is written fails on a logger that has a bound context and no driver:
  \<open>critical\<close> throws the no-driver error, no log is emitted and \<open>errorNotify\<close> is not
  invoked (the state, and with it the list of driver calls, is unchanged).
\<close>

theorem critical_bound_context_counterexample:
  "l_traceCtx (sample_logger\<lparr> l_driver := None \<rparr>) = Some sample_ctx
   \<and> tc_traceDriver sample_state = Some (TraceDriver 0)
   \<and> Logger_critical (sample_logger\<lparr> l_driver := None \<rparr>) ''boom'' [] sample_state
       = (Inl (Error ''no log driver provided''), sample_state)"
  by (simp add: sample_logger_def sample_state_def initial_state_def Logger_critical_def
      Logger_log_def)

text \<open>
  C5, at a failing input. A handler logs the argument object it received, which carries
  the injected context: \<open>logger.info("msg", {a: 1, $ctx})\<close>. The loop of \<open>_log\<close> does
  build the cleaned item \<open>{a: 1}\<close>, and that item would reach the driver as \<open>{a: 1}\<close>;
  but the serialisation is applied to the original \<open>data\<close>, it throws on the context, and
  the driver is called with undefined data: the payload is lost.
\<close>

theorem log_serialises_uncleaned_data:
  "cleanItem (JObj [(''a'', JNum 1), (''$ctx'', JCtx 7)]) = JObj [(''a'', JNum 1)]
   \<and> plainData [JObj [(''a'', JNum 1)]] = JObj [(''a'', JNum 1)]
   \<and> plainData [JObj [(''a'', JNum 1), (''$ctx'', JCtx 7)]] = JUndefined
   \<and> Logger_info sample_logger ''msg'' [JObj [(''a'', JNum 1), (''$ctx'', JCtx 7)]] sample_state
       = (Inr (), sample_state\<lparr> events :=
            [LogCall (LogDriver 0) LvInfo ''msg'' JUndefined (Some 7)] \<rparr>)"
  by (simp add: cleanItem_def plainData_def JSON_clone_def Logger_info_def Logger_log_def
      sample_logger_def sample_state_def sample_ctx_def initial_state_def LOG_LEVELS_def
      scopedMessage_def emit_def)

section \<open>Properties of the shared context and of spans\<close>

lemma sharedInit_sets_shared:
  "tc_shared (snd (sharedInit config st)) = Some (fst (sharedInit config st))"
proof (cases "tc_shared st")
  case None
  then show ?thesis
    by (simp add: sharedInit_def TraceContext_new_def nanoid_def emit_def Let_def split_def
        empty_config_def split: option.splits)
next
  case (Some s)
  then show ?thesis by (simp add: sharedInit_def)
qed

text \<open>
  C7. After one call of \<open>sharedInit\<close>, from any state of the process, a second call with
  any configuration returns the shared context the first call returned and leaves the
  whole state as it was: statics, drivers, log levels, inject mode, shared context, and
  the calls made on drivers (no driver is initialised again).
\<close>

theorem sharedInit_idempotent:
  "sharedInit config2 (snd (sharedInit config1 st))
     = (fst (sharedInit config1 st), snd (sharedInit config1 st))"
  using sharedInit_sets_shared [of config1 st]
  by (simp add: sharedInit_def [of config2])

theorem sharedInit_idempotent_witness:
  "sharedInit
     \<lparr> si_injectMode = Some IN_FIRST_ARG_OBJECT, si_logDriver = Some (LogDriver 5),
       si_logLevel = Some LvError, si_shouldLogStartEnd = Some False,
       si_serviceColor = None, si_serviceName = Some ''other'',
       si_traceDriver = Some (TraceDriver 9), si_shouldRecordTracing = Some False \<rparr>
     (snd (sharedInit
       \<lparr> si_injectMode = None, si_logDriver = None, si_logLevel = Some LvDebug,
         si_shouldLogStartEnd = None, si_serviceColor = None, si_serviceName = Some ''svc'',
         si_traceDriver = None, si_shouldRecordTracing = None \<rparr>
       (initial_state sample_ids sample_hashes)))
   = sharedInit
       \<lparr> si_injectMode = None, si_logDriver = None, si_logLevel = Some LvDebug,
         si_shouldLogStartEnd = None, si_serviceColor = None, si_serviceName = Some ''svc'',
         si_traceDriver = None, si_shouldRecordTracing = None \<rparr>
       (initial_state sample_ids sample_hashes)"
  using sharedInit_idempotent
    [of "\<lparr> si_injectMode = Some IN_FIRST_ARG_OBJECT, si_logDriver = Some (LogDriver 5),
           si_logLevel = Some LvError, si_shouldLogStartEnd = Some False,
           si_serviceColor = None, si_serviceName = Some ''other'',
           si_traceDriver = Some (TraceDriver 9), si_shouldRecordTracing = Some False \<rparr>"
        "\<lparr> si_injectMode = None, si_logDriver = None, si_logLevel = Some LvDebug,
           si_shouldLogStartEnd = None, si_serviceColor = None, si_serviceName = Some ''svc'',
           si_traceDriver = None, si_shouldRecordTracing = None \<rparr>"
        "initial_state sample_ids sample_hashes"]
  by simp

text \<open>
  C8, as the code has it. \<open>traceFinish\<close> without a span changes nothing; with a span it
  sets the status and calls \<open>finish()\<close>, and it does so on every call: the span stays
  attached, so a second call sets the status and finishes the span a second time.
\<close>

theorem traceFinish_every_call:
  "traceFinish ctx status st =
     (case c_span (self ctx) of
        None \<Rightarrow> st
      | Some sp \<Rightarrow>
          st\<lparr> events := events st
                 @ [SpanSetStatus sp (case status of None \<Rightarrow> OK | Some s \<Rightarrow> s), SpanFinish sp] \<rparr>)
   \<and> traceFinish ctx status' (traceFinish ctx status st) =
     (case c_span (self ctx) of
        None \<Rightarrow> st
      | Some sp \<Rightarrow>
          st\<lparr> events := events st
                 @ [SpanSetStatus sp (case status of None \<Rightarrow> OK | Some s \<Rightarrow> s), SpanFinish sp,
                    SpanSetStatus sp (case status' of None \<Rightarrow> OK | Some s \<Rightarrow> s), SpanFinish sp] \<rparr>)"
  by (simp add: traceFinish_def emit_def split: option.splits)

theorem traceFinish_every_call_witness:
  "traceFinish sample_ctx (Some OK) sample_state = sample_state
   \<and> events (traceFinish sample_traced_ctx None
               (traceFinish sample_traced_ctx (Some INTERNAL_ERROR) sample_state))
     = [SpanSetStatus 3 INTERNAL_ERROR, SpanFinish 3, SpanSetStatus 3 OK, SpanFinish 3]"
proof -
  have a: "c_span (self sample_ctx) = None"
    by (simp add: sample_ctx_def)
  have b: "c_span (self sample_traced_ctx) = Some 3"
    by (simp add: sample_traced_ctx_def)
  have e: "events sample_state = []"
    by (simp add: sample_state_def initial_state_def)
  have x: "traceFinish sample_ctx (Some OK) sample_state = sample_state"
    using traceFinish_every_call [of sample_ctx "Some OK" sample_state "Some OK", THEN conjunct1] a
    by simp
  have y: "traceFinish sample_traced_ctx None
             (traceFinish sample_traced_ctx (Some INTERNAL_ERROR) sample_state)
           = sample_state\<lparr> events :=
               [SpanSetStatus 3 INTERNAL_ERROR, SpanFinish 3, SpanSetStatus 3 OK, SpanFinish 3] \<rparr>"
    using traceFinish_every_call
      [of sample_traced_ctx "Some INTERNAL_ERROR" sample_state None, THEN conjunct2] b e
    by simp
  show ?thesis
    by (simp add: x y)
qed

text \<open>
  The claim as it is written fails: on a context with a span, the second call is not a
  no-op, the span is finished twice.
\<close>

theorem traceFinish_twice_counterexample:
  "c_span (self sample_traced_ctx) = Some 3
   \<and> events (traceFinish sample_traced_ctx (Some OK) sample_state)
       = [SpanSetStatus 3 OK, SpanFinish 3]
   \<and> events (traceFinish sample_traced_ctx (Some OK)
               (traceFinish sample_traced_ctx (Some OK) sample_state))
       = [SpanSetStatus 3 OK, SpanFinish 3, SpanSetStatus 3 OK, SpanFinish 3]"
  by (simp add: traceFinish_def emit_def sample_traced_ctx_def sample_ctx_def sample_state_def
      initial_state_def)

section \<open>Properties of the hash codec\<close>

lemma sequenceE_map_Inr:
  "(\<And>x. x \<in> set xs \<Longrightarrow> f x = Inr (g x)) \<Longrightarrow> sequenceE (map f xs) = Inr (map g xs)"
  by (induction xs) simp_all

lemma keep_defined_props:
  "concat (map (\<lambda>(k, w). case w of None \<Rightarrow> [] | Some j \<Rightarrow> [(k, j)])
            (zip (map fst kvs) (map (\<lambda>kv. Some (snd kv)) kvs))) = kvs"
  by (induction kvs) auto

text \<open>Serialising JSON data writes that very document.\<close>

lemma JSON_value_json_data: "json_data v \<Longrightarrow> JSON_value v = Inr (Some v)"
proof (induction v)
  case (JArr vs)
  then have "sequenceE (map JSON_value vs) = Inr (map Some vs)"
    by (intro sequenceE_map_Inr) simp
  then show ?case by (simp add: comp_def)
next
  case (JObj kvs)
  have "sequenceE (map (\<lambda>kv. JSON_value (snd kv)) kvs) = Inr (map (\<lambda>kv. Some (snd kv)) kvs)"
  proof (intro sequenceE_map_Inr)
    fix kv assume mem: "kv \<in> set kvs"
    have "json_data (snd kv)" using JObj.prems mem by simp
    moreover have "snd kv \<in> Basic_BNFs.snds kv" by (cases kv) simp
    ultimately show "JSON_value (snd kv) = Inr (Some (snd kv))"
      using JObj.IH mem by blast
  qed
  then show ?case by (simp add: keep_defined_props)
qed simp_all

lemma sequenceE_all2: "sequenceE xs = Inr ys \<Longrightarrow> list_all2 (\<lambda>x y. x = Inr y) xs ys"
  by (induction xs arbitrary: ys) (auto split: sum.splits)

text \<open>What \<open>JSON.stringify\<close> writes is JSON data.\<close>

lemma JSON_value_is_json_data: "JSON_value v = Inr (Some j) \<Longrightarrow> json_data j"
proof (induction v arbitrary: j)
  case (JArr vs)
  then obtain ws where ws: "sequenceE (map JSON_value vs) = Inr ws"
      and j: "j = JArr (map (\<lambda>w. case w of None \<Rightarrow> JNull | Some x \<Rightarrow> x) ws)"
    by (auto split: sum.splits)
  have all: "list_all2 (\<lambda>v w. JSON_value v = Inr w) vs ws"
    using sequenceE_all2 [OF ws] by (simp add: list_all2_map1)
  have "json_data (case w of None \<Rightarrow> JNull | Some x \<Rightarrow> x)" if "w \<in> set ws" for w
  proof (cases w)
    case None
    then show ?thesis by simp
  next
    case (Some x)
    from that obtain i where i: "i < length ws" "ws ! i = w"
      by (auto simp: in_set_conv_nth)
    then have "JSON_value (vs ! i) = Inr w" "vs ! i \<in> set vs"
      using all by (auto simp: list_all2_conv_all_nth)
    then show ?thesis using JArr.IH Some by simp
  qed
  then show ?case using j by simp
next
  case (JObj kvs)
  then obtain ws where ws: "sequenceE (map (\<lambda>kv. JSON_value (snd kv)) kvs) = Inr ws"
      and j: "j = JObj (concat (map (\<lambda>(k, w). case w of None \<Rightarrow> [] | Some x \<Rightarrow> [(k, x)])
                                  (zip (map fst kvs) ws)))"
    by (auto split: sum.splits)
  have all: "list_all2 (\<lambda>kv w. JSON_value (snd kv) = Inr w) kvs ws"
    using sequenceE_all2 [OF ws] by (simp add: list_all2_map1)
  have "json_data x"
    if "(k, x) \<in> set (concat (map (\<lambda>(k, w). case w of None \<Rightarrow> [] | Some x \<Rightarrow> [(k, x)])
                                  (zip (map fst kvs) ws)))" for k x
  proof -
    from that obtain k' w where kw: "(k', w) \<in> set (zip (map fst kvs) ws)" and w: "w = Some x"
      by (auto split: option.splits)
    then obtain i where i: "i < length kvs" "i < length ws" "ws ! i = w"
      by (auto simp: set_zip)
    then have "JSON_value (snd (kvs ! i)) = Inr (Some x)"
      using all w by (auto simp: list_all2_conv_all_nth)
    moreover have "kvs ! i \<in> set kvs" using i(1) by simp
    moreover have "snd (kvs ! i) \<in> Basic_BNFs.snds (kvs ! i)" by (cases "kvs ! i") simp
    ultimately show ?thesis using JObj.IH by blast
  qed
  then show ?case using j by auto
qed auto

lemma sequenceE_each:
  "sequenceE (map f xs) = Inr ws \<Longrightarrow> x \<in> set xs \<Longrightarrow> \<exists>w. f x = Inr w"
  by (induction xs arbitrary: ws) (auto split: sum.splits)

lemma sequenceE_Inl: "sequenceE xs = Inl e \<Longrightarrow> Inl e \<in> set xs"
  by (induction xs) (auto split: sum.splits)

lemma sequenceE_total: "(\<And>x. x \<in> set xs \<Longrightarrow> \<exists>w. x = Inr w) \<Longrightarrow> \<exists>ws. sequenceE xs = Inr ws"
  by (induction xs) (fastforce split: sum.splits)+

text \<open>The only error of \<open>JSON.stringify\<close> on these values is the circular-structure one.\<close>

lemma JSON_value_error: "JSON_value v = Inl e \<Longrightarrow> e = circular"
proof (induction v)
  case (JArr vs)
  then have "sequenceE (map JSON_value vs) = Inl e"
    by (auto split: sum.splits)
  then obtain x where "x \<in> set vs" "JSON_value x = Inl e"
    using sequenceE_Inl by fastforce
  then show ?case using JArr.IH by simp
next
  case (JObj kvs)
  then have "sequenceE (map (\<lambda>kv. JSON_value (snd kv)) kvs) = Inl e"
    by (auto split: sum.splits)
  then obtain kv where kv: "kv \<in> set kvs" "JSON_value (snd kv) = Inl e"
    using sequenceE_Inl by fastforce
  moreover have "snd kv \<in> Basic_BNFs.snds kv" by (cases kv) simp
  ultimately show ?case using JObj.IH by blast
qed auto

text \<open>
  A value is serialised exactly when it holds no live context, and to a document unless
  it is \<open>undefined\<close>.
\<close>

lemma JSON_value_context: "has_ctx_ref v \<Longrightarrow> JSON_value v = Inl circular"
proof -
  assume h: "has_ctx_ref v"
  have "\<exists>e. JSON_value v = Inl e" using h
  proof (induction v)
    case (JArr vs)
    then obtain x where x: "x \<in> set vs" "\<exists>e. JSON_value x = Inl e" by auto
    have "\<not> (\<exists>ws. sequenceE (map JSON_value vs) = Inr ws)"
      using sequenceE_each [of JSON_value vs _ x] x by auto
    then show ?case by (cases "sequenceE (map JSON_value vs)") auto
  next
    case (JObj kvs)
    then obtain kv where kv: "kv \<in> set kvs" "has_ctx_ref (snd kv)" by auto
    moreover have "snd kv \<in> Basic_BNFs.snds kv" by (cases kv) simp
    ultimately have "\<exists>e. JSON_value (snd kv) = Inl e" using JObj.IH by blast
    then have "\<not> (\<exists>ws. sequenceE (map (\<lambda>kv. JSON_value (snd kv)) kvs) = Inr ws)"
      using sequenceE_each [of "\<lambda>kv. JSON_value (snd kv)" kvs _ kv] kv(1) by auto
    then show ?case by (cases "sequenceE (map (\<lambda>kv. JSON_value (snd kv)) kvs)") auto
  qed auto
  then show ?thesis using JSON_value_error by blast
qed

lemma JSON_value_no_context: "\<not> has_ctx_ref v \<Longrightarrow> \<exists>w. JSON_value v = Inr w"
proof (induction v)
  case (JArr vs)
  then have "\<exists>ws. sequenceE (map JSON_value vs) = Inr ws"
    by (intro sequenceE_total) auto
  then show ?case by auto
next
  case (JObj kvs)
  have "\<exists>w. JSON_value (snd kv) = Inr w" if "kv \<in> set kvs" for kv
  proof -
    have "snd kv \<in> Basic_BNFs.snds kv" by (cases kv) simp
    moreover have "\<not> has_ctx_ref (snd kv)" using JObj.prems that by auto
    ultimately show ?thesis using JObj.IH that by blast
  qed
  then have "\<exists>ws. sequenceE (map (\<lambda>kv. JSON_value (snd kv)) kvs) = Inr ws"
    by (intro sequenceE_total) auto
  then show ?case by auto
qed auto

lemma JSON_value_None: "JSON_value v = Inr None \<Longrightarrow> v = JUndefined"
  by (cases v) (auto split: sum.splits)

lemma serialisable: "\<not> has_ctx_ref s \<Longrightarrow> s \<noteq> JUndefined \<Longrightarrow> \<exists>j. JSON_value s = Inr (Some j)"
  using JSON_value_no_context [of s] JSON_value_None [of s] by (metis not_Some_eq)

text \<open>
  The fields of the document of an object: at a key the document of the value the object
  has there, and nothing where that value is \<open>undefined\<close>.
\<close>

lemma map_of_defined_props:
  assumes "sequenceE (map (\<lambda>kv. JSON_value (snd kv)) kvs) = Inr ws"
    and "distinct (map fst kvs)"
  shows "map_of (concat (map (\<lambda>(k, w). case w of None \<Rightarrow> [] | Some j \<Rightarrow> [(k, j)])
                           (zip (map fst kvs) ws))) k
         = (case map_of kvs k of
              None \<Rightarrow> None
            | Some v \<Rightarrow> (case JSON_value v of Inl e \<Rightarrow> None | Inr w \<Rightarrow> w))"
  using assms
proof (induction kvs arbitrary: ws)
  case Nil
  then show ?case by simp
next
  case (Cons kv kvs)
  obtain k0 v0 where kv: "kv = (k0, v0)" by (cases kv)
  from Cons.prems(1) kv obtain w0 ws' where
    w0: "JSON_value v0 = Inr w0" and ws': "sequenceE (map (\<lambda>kv. JSON_value (snd kv)) kvs) = Inr ws'"
    and ws: "ws = w0 # ws'"
    by (auto split: sum.splits)
  have d: "distinct (map fst kvs)" and fresh: "k0 \<notin> fst ` set kvs"
    using Cons.prems(2) kv by simp_all
  note IH = Cons.IH [OF ws' d]
  have absent: "map_of kvs k0 = None"
    using fresh by (simp add: map_of_eq_None_iff)
  show ?case
  proof (cases "k = k0")
    case True
    then show ?thesis
      using kv ws w0 IH absent by (cases w0) simp_all
  next
    case False
    then show ?thesis
      using kv ws w0 IH by (cases w0) simp_all
  qed
qed

lemma JSON_value_prop:
  assumes "JSON_value (JObj kvs) = Inr (Some j)" and "distinct (map fst kvs)"
  shows "JSON_value (getProp (JObj kvs) k) = Inr (if hasProp j k then Some (getProp j k) else None)"
proof -
  from assms(1) obtain ws where ws: "sequenceE (map (\<lambda>kv. JSON_value (snd kv)) kvs) = Inr ws"
    and j: "j = JObj (concat (map (\<lambda>(k, w). case w of None \<Rightarrow> [] | Some x \<Rightarrow> [(k, x)])
                                (zip (map fst kvs) ws)))"
    by (auto split: sum.splits)
  note m = map_of_defined_props [OF ws assms(2), of k]
  show ?thesis
  proof (cases "map_of kvs k")
    case None
    then show ?thesis using j m by simp
  next
    case (Some v)
    then have "(k, v) \<in> set kvs" by (rule map_of_SomeD)
    then obtain w where w: "JSON_value v = Inr w"
      using sequenceE_each [OF ws] by fastforce
    then show ?thesis using j m Some by (cases w) simp_all
  qed
qed

lemma JSON_value_field:
  assumes "JSON_value s = Inr (Some j)" and "wf s"
  shows "JSON_value (getProp s k) = Inr (if hasProp j k then Some (getProp j k) else None)"
proof (cases s)
  case (JObj kvs)
  then show ?thesis
    using assms JSON_value_prop [of kvs j k] by simp
next
  case JUndefined
  then show ?thesis using assms(1) by simp
qed (use assms(1) in \<open>auto split: sum.splits\<close>)

text \<open>The prefix the encoder puts in front is the first occurrence the decoder removes.\<close>

lemma replace_prefix: "replace (p @ s) p rep = rep @ s"
proof (cases "p @ s")
  case Nil
  then show ?thesis by simp
next
  case (Cons a list)
  have "take (length p) (p @ s) = p" by simp
  moreover have "drop (length p) (p @ s) = s" by simp
  ultimately show ?thesis
    using Cons by (metis replace.simps(2))
qed

lemma hash_codec:
  assumes "JSON_value s = Inr (Some j)"
    and "decompressFromBase64 L (compressToBase64 L (Some (json_text L j))) = Some (json_text L j)"
    and "json_read L (json_text L j) = Some j"
  shows "hashEncode L s = Inr (TRACE_HASH_PREFIX @ compressToBase64 L (Some (json_text L j)))"
    and "hashDecode L (TRACE_HASH_PREFIX @ compressToBase64 L (Some (json_text L j))) = Inr j"
  using assms
  by (simp_all add: hashEncode_def hashDecode_def JSON_stringify_def JSON_parse_def replace_prefix)

text \<open>
  C3, as the code has it. Let \<open>s\<close> be a snapshot that \<open>JSON.stringify\<close> serialises to the
  document \<open>j\<close> (by \<open>serialisable\<close> and \<open>JSON_value_context\<close>: any \<open>s\<close> other than
  \<open>undefined\<close> that holds no live context), on libraries that give the text of \<open>j\<close> back
  (\<open>lz-string\<close> decompresses what it compressed, \<open>JSON.parse\<close> reads what \<open>JSON.stringify\<close>
  wrote). Then \<open>hashEncode(s)\<close> returns a token that starts with the prefix, and
  \<open>hashDecode\<close> of the token is \<open>j\<close>; encoding \<open>j\<close> gives the same token, so a second round
  trip returns \<open>j\<close> again. The document \<open>j\<close> is JSON data, and it is \<open>s\<close> exactly when \<open>s\<close>
  is JSON data. Field by field, the decoded snapshot has at \<open>k\<close> the document of the field
  \<open>k\<close> of \<open>s\<close>, and no field \<open>k\<close> when that field of \<open>s\<close> is \<open>undefined\<close> or absent.
\<close>

theorem hash_decode_of_encode:
  assumes "JSON_value s = Inr (Some j)"
    and "decompressFromBase64 L (compressToBase64 L (Some (json_text L j))) = Some (json_text L j)"
    and "json_read L (json_text L j) = Some j"
  shows "(\<exists>h. hashEncode L s = Inr h \<and> startsWith h TRACE_HASH_PREFIX
              \<and> hashDecode L h = Inr j \<and> hashEncode L j = Inr h)
    \<and> json_data j
    \<and> (j = s \<longleftrightarrow> json_data s)
    \<and> (wf s \<longrightarrow>
          (\<forall>k. JSON_value (getProp s k) = Inr (if hasProp j k then Some (getProp j k) else None)))"
proof -
  have data: "json_data j"
    using assms(1) by (rule JSON_value_is_json_data)
  then have again: "JSON_value j = Inr (Some j)"
    by (rule JSON_value_json_data)
  have "hashEncode L s = Inr (TRACE_HASH_PREFIX @ compressToBase64 L (Some (json_text L j)))"
    and "hashDecode L (TRACE_HASH_PREFIX @ compressToBase64 L (Some (json_text L j))) = Inr j"
    and "hashEncode L j = Inr (TRACE_HASH_PREFIX @ compressToBase64 L (Some (json_text L j)))"
    using hash_codec [OF assms] hash_codec(1) [OF again assms(2,3)] by simp_all
  then have token: "\<exists>h. hashEncode L s = Inr h \<and> startsWith h TRACE_HASH_PREFIX
      \<and> hashDecode L h = Inr j \<and> hashEncode L j = Inr h"
    by (simp add: startsWith_def)
  have same: "j = s \<longleftrightarrow> json_data s"
    using assms(1) data JSON_value_json_data [of s] by auto
  have fields: "wf s \<longrightarrow>
      (\<forall>k. JSON_value (getProp s k) = Inr (if hasProp j k then Some (getProp j k) else None))"
    using JSON_value_field [OF assms(1)] by blast
  show ?thesis
    using token data same fields by blast
qed

theorem hash_decode_of_encode_witness:
  "hashEncode sample_libs (hashData_of sample_state sample_ctx) = Inr ''$TRACE_HASH_S''
   \<and> hashDecode sample_libs ''$TRACE_HASH_S'' = Inr sample_snapshot
   \<and> hashEncode sample_libs sample_snapshot = Inr ''$TRACE_HASH_S''
   \<and> json_data sample_snapshot
   \<and> sample_snapshot \<noteq> hashData_of sample_state sample_ctx
   \<and> JSON_value (getProp (hashData_of sample_state sample_ctx) ''data'') = Inr None
   \<and> \<not> hasProp sample_snapshot ''data''"
proof -
  have a: "JSON_value (hashData_of sample_state sample_ctx) = Inr (Some sample_snapshot)"
    by (simp add: hashData_of_def sample_ctx_def sample_state_def sample_snapshot_def
        initial_state_def evalCallStackNamesChain_def isShared_def frame_of_def js_of_item_def
        js_of_string_def)
  have b: "decompressFromBase64 sample_libs
             (compressToBase64 sample_libs (Some (json_text sample_libs sample_snapshot)))
           = Some (json_text sample_libs sample_snapshot)"
    by (simp add: sample_libs_def sample_snapshot_def)
  have c: "json_read sample_libs (json_text sample_libs sample_snapshot) = Some sample_snapshot"
    by (simp add: sample_libs_def sample_snapshot_def)
  have d: "hashEncode sample_libs (hashData_of sample_state sample_ctx) = Inr ''$TRACE_HASH_S''"
    using a
    by (simp add: hashEncode_def JSON_stringify_def sample_libs_def TRACE_HASH_PREFIX_def
        sample_snapshot_def)
  have e: "\<not> json_data (hashData_of sample_state sample_ctx)"
    by (simp add: hashData_of_def sample_ctx_def)
  have f: "wf (hashData_of sample_state sample_ctx)"
    by (simp add: hashData_of_def sample_ctx_def sample_state_def
        initial_state_def evalCallStackNamesChain_def isShared_def frame_of_def js_of_item_def
        js_of_string_def)
  have g: "\<not> hasProp sample_snapshot ''data''"
    by (simp add: sample_snapshot_def)
  note t = hash_decode_of_encode [OF a b c]
  have t1: "hashDecode sample_libs ''$TRACE_HASH_S'' = Inr sample_snapshot
      \<and> hashEncode sample_libs sample_snapshot = Inr ''$TRACE_HASH_S''"
    using t [THEN conjunct1] d by auto
  have t2: "json_data sample_snapshot"
    using t by blast
  have t3: "sample_snapshot \<noteq> hashData_of sample_state sample_ctx"
    using t e by blast
  have t4: "JSON_value (getProp (hashData_of sample_state sample_ctx) ''data'') = Inr None"
    using t f g by simp
  show ?thesis
    using d t1 t2 t3 t4 g by blast
qed

text \<open>
  The claim as it is written fails at the snapshot \<open>toHash\<close> builds for a context that
  has no class name and no data. The object literal holds these fields with the value
  \<open>undefined\<close>; \<open>JSON.stringify\<close> leaves them out, in the chain item as well, and the
  decoded snapshot has no such fields: it is not the snapshot that was encoded.
\<close>

theorem snapshot_fields_dropped_counterexample:
  "hashData_of sample_state sample_ctx
     = JObj [(''callStackNamesChain'',
                JArr [JObj [(''className'', JUndefined), (''fnName'', JStr ''f''),
                            (''serviceName'', JStr ''svc'')]]),
             (''className'', JUndefined),
             (''data'', JUndefined),
             (''fnName'', JStr ''f''),
             (''id'', JStr ''P''),
             (''serviceName'', JStr ''svc'')]
   \<and> toHash sample_libs sample_ctx sample_state = Inr ''$TRACE_HASH_S''
   \<and> hashEncode sample_libs (hashData_of sample_state sample_ctx) = Inr ''$TRACE_HASH_S''
   \<and> hashDecode sample_libs ''$TRACE_HASH_S''
       = Inr (JObj [(''callStackNamesChain'',
                       JArr [JObj [(''fnName'', JStr ''f''), (''serviceName'', JStr ''svc'')]]),
                    (''fnName'', JStr ''f''),
                    (''id'', JStr ''P''),
                    (''serviceName'', JStr ''svc'')])
   \<and> hashDecode sample_libs ''$TRACE_HASH_S'' \<noteq> Inr (hashData_of sample_state sample_ctx)"
proof -
  have s: "hashData_of sample_state sample_ctx
     = JObj [(''callStackNamesChain'',
                JArr [JObj [(''className'', JUndefined), (''fnName'', JStr ''f''),
                            (''serviceName'', JStr ''svc'')]]),
             (''className'', JUndefined),
             (''data'', JUndefined),
             (''fnName'', JStr ''f''),
             (''id'', JStr ''P''),
             (''serviceName'', JStr ''svc'')]"
    by (simp add: hashData_of_def sample_ctx_def sample_state_def
        initial_state_def evalCallStackNamesChain_def isShared_def frame_of_def js_of_item_def
        js_of_string_def)
  have enc: "hashEncode sample_libs (hashData_of sample_state sample_ctx) = Inr ''$TRACE_HASH_S''"
    unfolding s
    by (simp add: hashEncode_def JSON_stringify_def sample_libs_def TRACE_HASH_PREFIX_def)
  have dec: "hashDecode sample_libs ''$TRACE_HASH_S''
       = Inr (JObj [(''callStackNamesChain'',
                       JArr [JObj [(''fnName'', JStr ''f''), (''serviceName'', JStr ''svc'')]]),
                    (''fnName'', JStr ''f''),
                    (''id'', JStr ''P''),
                    (''serviceName'', JStr ''svc'')])"
    by (simp add: hashDecode_def TRACE_HASH_PREFIX_def sample_libs_def JSON_parse_def
        sample_snapshot_def)
  show ?thesis
    using s enc dec by (simp add: toHash_def)
qed

text \<open>On JSON data the round trip is exact.\<close>

lemma hash_roundtrip_json_data:
  assumes "json_data s"
    and "decompressFromBase64 L (compressToBase64 L (Some (json_text L s))) = Some (json_text L s)"
    and "json_read L (json_text L s) = Some s"
  shows "\<exists>h. hashEncode L s = Inr h \<and> startsWith h TRACE_HASH_PREFIX \<and> hashDecode L h = Inr s"
proof -
  have "JSON_value s = Inr (Some s)"
    using assms(1) by (rule JSON_value_json_data)
  then show ?thesis
    using hash_codec [of s s L] assms(2,3) by (simp add: startsWith_def)
qed

subsection \<open>The snapshots \<open>toHash\<close> builds\<close>

text \<open>
  Whatever the libraries: the snapshot of a context without data is not JSON data, so
  what is decoded from its hash is not that snapshot.
\<close>

lemma undefined_data_not_json:
  "c_data (self ctx) = JUndefined \<Longrightarrow> \<not> json_data (hashData_of st ctx)"
  by (simp add: hashData_of_def)

lemma toHash_not_returned:
  assumes "JSON_value (hashData_of st ctx) = Inr (Some j)"
    and "decompressFromBase64 L (compressToBase64 L (Some (json_text L j))) = Some (json_text L j)"
    and "json_read L (json_text L j) = Some j"
    and "c_data (self ctx) = JUndefined"
  shows "\<exists>h. toHash L ctx st = Inr h \<and> hashDecode L h = Inr j \<and> j \<noteq> hashData_of st ctx"
proof -
  have "json_data j"
    using assms(1) by (rule JSON_value_is_json_data)
  then have "j \<noteq> hashData_of st ctx"
    using undefined_data_not_json [OF assms(4)] by auto
  then show ?thesis
    using hash_codec [OF assms(1-3)] by (simp add: toHash_def)
qed

text \<open>An \<open>undefined\<close> element of an array in the data is written as \<open>null\<close>.\<close>

lemma undefined_element_written_null:
  "JSON_value (JObj [(''id'', JStr i), (''data'', JArr [JUndefined])])
     = Inr (Some (JObj [(''id'', JStr i), (''data'', JArr [JNull])]))"
  by simp

text \<open>The document of the snapshot of a context, field by field.\<close>

lemma JSON_value_item: "JSON_value (js_of_item item) = Inr (Some (json_of_item item))"
  by (cases "className item"; cases "serviceName item")
     (simp_all add: js_of_item_def json_of_item_def js_of_string_def)

lemma item_of_json: "item_of_js (json_of_item item) = item"
  by (cases "className item"; cases "serviceName item")
     (simp_all add: item_of_js_def json_of_item_def as_string_def)

lemma JSON_value_chain:
  "JSON_value (JArr (map js_of_item chain)) = Inr (Some (JArr (map json_of_item chain)))"
proof -
  have "sequenceE (map JSON_value (map js_of_item chain))
        = Inr (map (\<lambda>i. Some (json_of_item i)) chain)"
    by (induction chain) (simp_all add: JSON_value_item)
  then show ?thesis by (simp add: comp_def)
qed

lemma item_of_item: "item_of_js (js_of_item item) = item"
  by (cases "className item"; cases "serviceName item")
     (simp_all add: item_of_js_def js_of_item_def js_of_string_def as_string_def)

lemma snapshot_document:
  assumes "JSON_value (c_data (self ctx)) = Inr d"
  shows "JSON_value (hashData_of st ctx) =
    Inr (Some (JObj (
      [(''callStackNamesChain'', JArr (map json_of_item (evalCallStackNamesChain st ctx)))]
      @ (case c_className (self ctx) of None \<Rightarrow> [] | Some c \<Rightarrow> [(''className'', JStr c)])
      @ (case d of None \<Rightarrow> [] | Some x \<Rightarrow> [(''data'', x)])
      @ (case c_fnName (self ctx) of None \<Rightarrow> [] | Some f \<Rightarrow> [(''fnName'', JStr f)])
      @ [(''id'', JStr (c_id (self ctx)))]
      @ (case tc_serviceName st of None \<Rightarrow> [] | Some n \<Rightarrow> [(''serviceName'', JStr n)])
      @ (case c_span (self ctx) of
           None \<Rightarrow> []
         | Some sp \<Rightarrow> [(''spanHash'', JStr (span_hash st sp))]))))"
  using assms
  by (simp add: hashData_of_def JSON_value_chain js_of_string_def del: JSON_value.simps(6)
      split: option.splits)

text \<open>
  \<open>fromHash\<close> reads its options off the decoded snapshot by name, and reading an absent
  field gives \<open>undefined\<close>: when the data of the context is JSON data or \<open>undefined\<close>, the
  options read from the decoded snapshot are those read from the snapshot itself.
\<close>

lemma absent_prop: "\<not> hasProp v k \<Longrightarrow> getProp v k = JUndefined"
  by (cases v) auto

lemma JSON_value_object: "JSON_value (JObj kvs) = Inr (Some j) \<Longrightarrow> isPlainObject j"
  by (auto split: sum.splits)

lemma decoded_prop:
  assumes "JSON_value (JObj kvs) = Inr (Some j)" and "distinct (map fst kvs)"
  shows "getProp j k
    = (case JSON_value (getProp (JObj kvs) k) of Inr (Some x) \<Rightarrow> x | _ \<Rightarrow> JUndefined)"
  using JSON_value_prop [OF assms, of k] absent_prop [of j k] by (simp split: if_splits)

lemma decoded_string:
  "(case JSON_value (js_of_string x) of Inr (Some y) \<Rightarrow> y | _ \<Rightarrow> JUndefined) = js_of_string x"
  by (cases x) (simp_all add: js_of_string_def)

lemma config_of_js_cong:
  assumes "isPlainObject v" and "isPlainObject v'"
    and "getProp v ''id'' = getProp v' ''id''"
    and "getProp v ''className'' = getProp v' ''className''"
    and "getProp v ''data'' = getProp v' ''data''"
    and "getProp v ''fnName'' = getProp v' ''fnName''"
    and "getProp v ''serviceName'' = getProp v' ''serviceName''"
    and "getProp v ''spanHash'' = getProp v' ''spanHash''"
    and "(case getProp v ''callStackNamesChain'' of
            JArr items \<Rightarrow> Some (map item_of_js items) | _ \<Rightarrow> None)
       = (case getProp v' ''callStackNamesChain'' of
            JArr items \<Rightarrow> Some (map item_of_js items) | _ \<Rightarrow> None)"
  shows "config_of_js v = config_of_js v'"
proof -
  obtain kvs kvs' where v: "v = JObj kvs" "v' = JObj kvs'"
    using assms(1,2) by (cases v; cases v') auto
  show ?thesis
    using assms(3-9) unfolding v config_of_js_def by simp
qed

lemma fromHash_reads_same:
  assumes "JSON_value (hashData_of st ctx) = Inr (Some j)"
    and "c_data (self ctx) = JUndefined \<or> json_data (c_data (self ctx))"
  shows "config_of_js j = config_of_js (hashData_of st ctx)"
proof -
  let ?s = "hashData_of st ctx"
  obtain kvs where kvs: "?s = JObj kvs" and d: "distinct (map fst kvs)"
    by (cases "c_span (self ctx)") (simp_all add: hashData_of_def)
  have p: "getProp j k = (case JSON_value (getProp ?s k) of Inr (Some x) \<Rightarrow> x | _ \<Rightarrow> JUndefined)"
    for k
    using decoded_prop [of kvs j k] assms(1) kvs d by simp
  have obj: "isPlainObject j" "isPlainObject ?s"
    using JSON_value_object [of kvs j] assms(1) kvs by auto
  have str: "getProp j k = getProp ?s k"
    if "\<exists>x. getProp ?s k = js_of_string x" for k
    using that p [of k] decoded_string by auto
  have id: "getProp j ''id'' = getProp ?s ''id''"
    using p [of "''id''"] by (simp add: hashData_of_def)
  have cn: "getProp j ''className'' = getProp ?s ''className''"
    by (rule str) (auto simp: hashData_of_def)
  have fn: "getProp j ''fnName'' = getProp ?s ''fnName''"
    by (rule str) (auto simp: hashData_of_def)
  have sn: "getProp j ''serviceName'' = getProp ?s ''serviceName''"
    by (rule str) (auto simp: hashData_of_def)
  have sh: "getProp j ''spanHash'' = getProp ?s ''spanHash''"
    using p [of "''spanHash''"] by (cases "c_span (self ctx)") (simp_all add: hashData_of_def)
  have da: "getProp j ''data'' = getProp ?s ''data''"
    using p [of "''data''"] assms(2) JSON_value_json_data [of "c_data (self ctx)"]
    by (auto simp: hashData_of_def)
  have ch: "getProp j ''callStackNamesChain''
      = JArr (map json_of_item (evalCallStackNamesChain st ctx))"
    using p [of "''callStackNamesChain''"]
    by (simp add: hashData_of_def JSON_value_chain del: JSON_value.simps(6))
  have ch': "getProp ?s ''callStackNamesChain''
      = JArr (map js_of_item (evalCallStackNamesChain st ctx))"
    by (simp add: hashData_of_def)
  show ?thesis
    by (rule config_of_js_cong [OF obj id cn da fn sn sh])
       (simp add: ch ch' comp_def item_of_json item_of_item)
qed

section \<open>Properties of the call-stack lineage\<close>

lemma walk_append: "walk p (xs @ ys) = walk p xs @ ys"
  by (induction p xs rule: walk.induct) (auto split: option.splits)

lemma new_parent: "c_parent (fst (TraceContext_new config st)) = cfg_parent config"
  by (simp add: TraceContext_new_def Let_def split_def)

lemma new_chain:
  "c_callStackNamesChain (self (fst (TraceContext_new config st))) = cfg_callStackNamesChain config"
  by (simp add: TraceContext_new_def Let_def split_def)

lemma new_ref: "c_ref (self (fst (TraceContext_new config st))) = next_ref st"
  by (simp add: TraceContext_new_def Let_def split_def nanoid_def split: option.splits)

lemma new_shared: "tc_shared (snd (TraceContext_new config st)) = tc_shared st"
  by (simp add: TraceContext_new_def Let_def split_def nanoid_def split: option.splits)

lemma new_serviceName: "tc_serviceName (snd (TraceContext_new config st)) = tc_serviceName st"
  by (simp add: TraceContext_new_def Let_def split_def nanoid_def split: option.splits)

lemma new_next_ref: "next_ref (snd (TraceContext_new config st)) = Suc (next_ref st)"
  by (simp add: TraceContext_new_def Let_def split_def nanoid_def split: option.splits)

lemma new_not_shared:
  "fresh_refs st \<Longrightarrow> \<not> isShared (snd (TraceContext_new config st)) (fst (TraceContext_new config st))"
  by (auto simp: fresh_refs_def isShared_def new_shared new_ref split: option.splits)

lemma new_fresh: "fresh_refs st \<Longrightarrow> fresh_refs (snd (TraceContext_new config st))"
  by (auto simp: fresh_refs_def new_shared new_next_ref split: option.splits)

lemma isShared_new: "isShared (snd (TraceContext_new config st)) P = isShared st P"
  by (simp add: isShared_def new_shared)

lemma eval_new:
  "evalCallStackNamesChain (snd (TraceContext_new config st)) P = evalCallStackNamesChain st P"
  by (simp add: evalCallStackNamesChain_def isShared_new)

lemma eval_as_walk:
  "\<not> isShared st P \<Longrightarrow> evalCallStackNamesChain st P = walk (Some P) []"
  by (cases P) (simp add: evalCallStackNamesChain_def split: option.splits)

text \<open>A child of a context that is not the shared one: the parent's chain, then its frame.\<close>

lemma child_chain:
  assumes "fresh_refs st" "\<not> isShared st P" "cfg_callStackNamesChain config = None"
    "cfg_parent config = Some P"
  shows "evalCallStackNamesChain (snd (TraceContext_new config st)) (fst (TraceContext_new config st))
         = evalCallStackNamesChain st P @ [frame_of (fst (TraceContext_new config st))]"
proof -
  let ?c = "fst (TraceContext_new config st)" and ?s = "snd (TraceContext_new config st)"
  have "evalCallStackNamesChain ?s ?c = walk (Some P) [frame_of ?c]"
    using new_not_shared [OF assms(1), of config] assms(3,4)
    by (simp add: evalCallStackNamesChain_def new_chain new_parent)
  also have "\<dots> = walk (Some P) [] @ [frame_of ?c]"
    using walk_append [of "Some P" "[]" "[frame_of ?c]"] by simp
  finally show ?thesis using eval_as_walk [OF assms(2)] by simp
qed

text \<open>A context that carries a chain of its own and is not the shared one.\<close>

lemma eval_carried:
  "\<not> isShared st R \<Longrightarrow> c_callStackNamesChain (self R) = Some chain
     \<Longrightarrow> evalCallStackNamesChain st R = chain"
  by (simp add: evalCallStackNamesChain_def)

text \<open>What the snapshot of a context serialises to, and what is read back from it.\<close>

lemma JSON_value_first_prop:
  assumes "JSON_value (JObj ((k, v) # kvs)) = Inr (Some j)" and "JSON_value v = Inr (Some jv)"
  shows "\<exists>rest. j = JObj ((k, jv) # rest)"
  using assms by (auto split: sum.splits)

lemma snapshot_chain:
  assumes "JSON_value (hashData_of st P) = Inr (Some j)"
  shows "\<exists>rest. j = JObj ((''callStackNamesChain'',
                          JArr (map json_of_item (evalCallStackNamesChain st P))) # rest)"
proof -
  obtain kvs where
    "hashData_of st P = JObj ((''callStackNamesChain'',
        JArr (map js_of_item (evalCallStackNamesChain st P))) # kvs)"
    by (simp add: hashData_of_def)
  with assms have "JSON_value (JObj ((''callStackNamesChain'',
        JArr (map js_of_item (evalCallStackNamesChain st P))) # kvs)) = Inr (Some j)"
    by simp
  then show ?thesis
    by (rule JSON_value_first_prop [OF _ JSON_value_chain])
qed

lemma config_of_snapshot:
  assumes "j = JObj ((''callStackNamesChain'', JArr (map json_of_item chain)) # rest)"
  shows "\<exists>config. config_of_js j = Inr config
           \<and> cfg_callStackNamesChain config = Some chain \<and> cfg_parent config = None"
  using assms
  by (simp add: config_of_js_def empty_config_def comp_def item_of_json)

text \<open>The context rebuilt from the hash of \<open>P\<close> carries the chain of \<open>P\<close> and has no parent.\<close>

lemma rebuilt_from_hash:
  assumes fresh: "fresh_refs st"
    and snap: "JSON_value (hashData_of st P) = Inr (Some j)"
    and lz: "decompressFromBase64 L (compressToBase64 L (Some (json_text L j))) = Some (json_text L j)"
    and json: "json_read L (json_text L j) = Some j"
  shows "\<exists>h R st2. toHash L P st = Inr h \<and> fromHash L h st = (Inr R, st2) \<and> c_parent R = None
           \<and> c_callStackNamesChain (self R) = Some (evalCallStackNamesChain st P)
           \<and> \<not> isShared st2 R \<and> fresh_refs st2
           \<and> tc_serviceName st2 = tc_serviceName st
           \<and> evalCallStackNamesChain st2 P = evalCallStackNamesChain st P"
proof -
  let ?h = "TRACE_HASH_PREFIX @ compressToBase64 L (Some (json_text L j))"
  have enc: "toHash L P st = Inr ?h"
    using hash_codec(1) [OF snap lz json] by (simp add: toHash_def)
  have dec: "hashDecode L ?h = Inr j"
    by (rule hash_codec(2) [OF snap lz json])
  obtain config where cfg: "config_of_js j = Inr config"
      "cfg_callStackNamesChain config = Some (evalCallStackNamesChain st P)"
      "cfg_parent config = None"
    using snapshot_chain [OF snap] config_of_snapshot by blast
  let ?R = "fst (TraceContext_new config st)" and ?s = "snd (TraceContext_new config st)"
  have "fromHash L ?h st = (Inr ?R, ?s)"
    by (simp add: fromHash_def dec cfg(1) split_def Let_def)
  moreover have "c_parent ?R = None"
    by (simp add: new_parent cfg(3))
  moreover have "c_callStackNamesChain (self ?R) = Some (evalCallStackNamesChain st P)"
    by (simp add: new_chain cfg(2))
  moreover have "\<not> isShared ?s ?R"
    using fresh by (rule new_not_shared)
  moreover have "fresh_refs ?s"
    using fresh by (rule new_fresh)
  moreover have "tc_serviceName ?s = tc_serviceName st"
    by (rule new_serviceName)
  moreover have "evalCallStackNamesChain ?s P = evalCallStackNamesChain st P"
    by (rule eval_new)
  ultimately show ?thesis using enc by blast
qed

text \<open>
  C6, as the code has it. Let \<open>P\<close> be any context whose snapshot can be serialised (its
  data holds no live context), and let a child be constructed with parent \<open>P\<close> and no
  chain of its own. If \<open>P\<close> is not the shared context, the child's chain is the chain of
  \<open>P\<close> followed by the child's frame, and its \<open>callStackName\<close> is the rendering of that
  chain. \<open>P.toHash()\<close> returns a hash; the context rebuilt from it has no parent, the
  chain and the \<open>callStackName\<close> of \<open>P\<close>, and a child constructed from it with the same
  config has the chain of \<open>P\<close> followed by its frame, which is the frame of the live child
  when the config names the function. The libraries are assumed to give the serialised
  snapshot back.
\<close>

theorem lineage_preserved:
  assumes fresh: "fresh_refs st"
    and nochain: "cfg_callStackNamesChain config = None"
    and child: "TraceContext_new (config\<lparr> cfg_parent := Some P \<rparr>) st = (child, st1)"
    and snap: "JSON_value (hashData_of st P) = Inr (Some j)"
    and lz: "decompressFromBase64 L (compressToBase64 L (Some (json_text L j))) = Some (json_text L j)"
    and json: "json_read L (json_text L j) = Some j"
  shows "(\<not> isShared st P \<longrightarrow>
            evalCallStackNamesChain st1 child = evalCallStackNamesChain st P @ [frame_of child]
          \<and> callStackName st1 child
              = renderChain (tc_serviceName st) (evalCallStackNamesChain st P @ [frame_of child]))
       \<and> (\<exists>h R st2. toHash L P st = Inr h \<and> fromHash L h st = (Inr R, st2) \<and> c_parent R = None
             \<and> evalCallStackNamesChain st2 R = evalCallStackNamesChain st P
             \<and> callStackName st2 R = renderChain (tc_serviceName st) (evalCallStackNamesChain st P)
             \<and> (\<forall>child' st3.
                   TraceContext_new (config\<lparr> cfg_parent := Some R \<rparr>) st2 = (child', st3) \<longrightarrow>
                     evalCallStackNamesChain st3 child'
                       = evalCallStackNamesChain st P @ [frame_of child']
                   \<and> callStackName st3 child'
                       = renderChain (tc_serviceName st)
                           (evalCallStackNamesChain st P @ [frame_of child'])
                   \<and> (nonEmpty (cfg_fnName config) \<longrightarrow> frame_of child' = frame_of child)))"
proof -
  have c1: "child = fst (TraceContext_new (config\<lparr> cfg_parent := Some P \<rparr>) st)"
    and s1: "st1 = snd (TraceContext_new (config\<lparr> cfg_parent := Some P \<rparr>) st)"
    using child by simp_all
  have live: "\<not> isShared st P \<Longrightarrow>
      evalCallStackNamesChain st1 child = evalCallStackNamesChain st P @ [frame_of child]"
    unfolding c1 s1 using fresh nochain by (intro child_chain) simp_all
  have name1: "\<not> isShared st P \<Longrightarrow> callStackName st1 child
      = renderChain (tc_serviceName st) (evalCallStackNamesChain st P @ [frame_of child])"
    using live by (simp add: callStackName_def s1 new_serviceName)
  obtain h R st2 where R: "fromHash L h st = (Inr R, st2)" "c_parent R = None"
      "c_callStackNamesChain (self R) = Some (evalCallStackNamesChain st P)"
      "\<not> isShared st2 R" "fresh_refs st2" "tc_serviceName st2 = tc_serviceName st"
      and enc: "toHash L P st = Inr h"
    using rebuilt_from_hash [OF fresh snap lz json] by blast
  have evR: "evalCallStackNamesChain st2 R = evalCallStackNamesChain st P"
    using R(3,4) by (simp add: eval_carried)
  have nameR: "callStackName st2 R
      = renderChain (tc_serviceName st) (evalCallStackNamesChain st P)"
    by (simp add: callStackName_def evR R(6))
  have remote: "evalCallStackNamesChain st3 child'
        = evalCallStackNamesChain st P @ [frame_of child']
      \<and> callStackName st3 child'
        = renderChain (tc_serviceName st) (evalCallStackNamesChain st P @ [frame_of child'])
      \<and> (nonEmpty (cfg_fnName config) \<longrightarrow> frame_of child' = frame_of child)"
    if new: "TraceContext_new (config\<lparr> cfg_parent := Some R \<rparr>) st2 = (child', st3)"
    for child' st3
  proof -
    have c3: "child' = fst (TraceContext_new (config\<lparr> cfg_parent := Some R \<rparr>) st2)"
      and s3: "st3 = snd (TraceContext_new (config\<lparr> cfg_parent := Some R \<rparr>) st2)"
      using new by simp_all
    have ch: "evalCallStackNamesChain st3 child' = evalCallStackNamesChain st2 R @ [frame_of child']"
      unfolding c3 s3 using R(4,5) nochain by (intro child_chain) simp_all
    have nm: "callStackName st3 child'
        = renderChain (tc_serviceName st) (evalCallStackNamesChain st P @ [frame_of child'])"
      using ch evR by (simp add: callStackName_def s3 new_serviceName R(6))
    have fr: "frame_of child' = frame_of child" if "nonEmpty (cfg_fnName config)"
      using that unfolding c3 c1
      by (auto simp: frame_of_def TraceContext_new_def Let_def split_def nanoid_def nonEmpty_def
          R(6) split: option.splits)
    show ?thesis using ch evR nm fr by simp
  qed
  show ?thesis
    using live name1 enc R(1,2) evR nameR remote by blast
qed

theorem lineage_preserved_witness:
  "callStackName
     (snd (TraceContext_new (empty_config\<lparr> cfg_fnName := Some ''g'', cfg_parent := Some sample_ctx \<rparr>)
             sample_state))
     (fst (TraceContext_new (empty_config\<lparr> cfg_fnName := Some ''g'', cfg_parent := Some sample_ctx \<rparr>)
             sample_state))
   = ''f.g''
   \<and> (\<exists>R st2. fromHash sample_libs ''$TRACE_HASH_S'' sample_state = (Inr R, st2)
         \<and> c_parent R = None
         \<and> callStackName st2 R = ''f''
         \<and> callStackName
              (snd (TraceContext_new (empty_config\<lparr> cfg_fnName := Some ''g'', cfg_parent := Some R \<rparr>) st2))
              (fst (TraceContext_new (empty_config\<lparr> cfg_fnName := Some ''g'', cfg_parent := Some R \<rparr>) st2))
            = ''f.g'')"
proof -
  let ?cfg = "empty_config\<lparr> cfg_fnName := Some ''g'' \<rparr>"
  let ?f = "\<lparr> fnName = ''f'', className = None, serviceName = Some ''svc'' \<rparr>"
  let ?g = "\<lparr> fnName = ''g'', className = None, serviceName = Some ''svc'' \<rparr>"
  have w1: "fresh_refs sample_state"
    by (simp add: fresh_refs_def sample_state_def initial_state_def)
  have w2: "cfg_callStackNamesChain ?cfg = None"
    by (simp add: empty_config_def)
  have w3: "TraceContext_new (?cfg\<lparr> cfg_parent := Some sample_ctx \<rparr>) sample_state
      = (fst (TraceContext_new (?cfg\<lparr> cfg_parent := Some sample_ctx \<rparr>) sample_state),
         snd (TraceContext_new (?cfg\<lparr> cfg_parent := Some sample_ctx \<rparr>) sample_state))"
    by simp
  have ns: "\<not> isShared sample_state sample_ctx"
    by (simp add: isShared_def sample_state_def initial_state_def)
  have ev: "evalCallStackNamesChain sample_state sample_ctx = [?f]"
    using ns by (simp add: evalCallStackNamesChain_def sample_ctx_def frame_of_def)
  have w5: "JSON_value (hashData_of sample_state sample_ctx) = Inr (Some sample_snapshot)"
    unfolding hashData_of_def ev
    by (simp add: sample_ctx_def sample_state_def initial_state_def js_of_item_def
        js_of_string_def sample_snapshot_def)
  have w4: "toHash sample_libs sample_ctx sample_state = Inr ''$TRACE_HASH_S''"
    unfolding toHash_def hashEncode_def JSON_stringify_def w5
    by (simp add: sample_libs_def sample_snapshot_def TRACE_HASH_PREFIX_def)
  have w6: "decompressFromBase64 sample_libs
              (compressToBase64 sample_libs (Some (json_text sample_libs sample_snapshot)))
            = Some (json_text sample_libs sample_snapshot)"
    by (simp add: sample_libs_def sample_snapshot_def)
  have w7: "json_read sample_libs (json_text sample_libs sample_snapshot) = Some sample_snapshot"
    by (simp add: sample_libs_def sample_snapshot_def)
  have sn: "tc_serviceName sample_state = Some ''svc''"
    by (simp add: sample_state_def initial_state_def)
  have fr: "frame_of (fst (TraceContext_new (?cfg\<lparr> cfg_parent := p \<rparr>) s)) = ?g"
    if "tc_serviceName s = Some ''svc''" for p s
    using that
    by (simp add: frame_of_def TraceContext_new_def Let_def split_def nanoid_def empty_config_def
        orElse_def)
  have r1: "renderChain (Some ''svc'') [?f] = ''f''"
    by (simp add: renderChain_def nameStep_def join_def)
  have r2: "renderChain (Some ''svc'') [?f, ?g] = ''f.g''"
    by (simp add: renderChain_def nameStep_def join_def)
  note main = lineage_preserved [OF w1 w2 w3 w5 w6 w7]
  have live: "callStackName
      (snd (TraceContext_new (?cfg\<lparr> cfg_parent := Some sample_ctx \<rparr>) sample_state))
      (fst (TraceContext_new (?cfg\<lparr> cfg_parent := Some sample_ctx \<rparr>) sample_state)) = ''f.g''"
    using main [THEN conjunct1] ns by (simp add: ev sn fr r2)
  obtain h R st2 where h: "toHash sample_libs sample_ctx sample_state = Inr h"
      and R0: "fromHash sample_libs h sample_state = (Inr R, st2)"
      "c_parent R = None"
      "callStackName st2 R = renderChain (Some ''svc'') [?f]"
      "\<forall>child' st3.
         TraceContext_new (?cfg\<lparr> cfg_parent := Some R \<rparr>) st2 = (child', st3) \<longrightarrow>
           callStackName st3 child' = renderChain (Some ''svc'') ([?f] @ [frame_of child'])"
      "evalCallStackNamesChain st2 R = [?f]"
    using main [THEN conjunct2] unfolding ev sn by blast
  have "h = ''$TRACE_HASH_S''"
    using h w4 by simp
  note R = R0 [unfolded this]
  have st2: "tc_serviceName st2 = Some ''svc''"
    using R(1) w5 w6 w7 sn
    by (auto simp: fromHash_def Let_def split_def new_serviceName split: sum.splits)
  have "callStackName
      (snd (TraceContext_new (?cfg\<lparr> cfg_parent := Some R \<rparr>) st2))
      (fst (TraceContext_new (?cfg\<lparr> cfg_parent := Some R \<rparr>) st2)) = ''f.g''"
    using R(4) [rule_format, of "fst (TraceContext_new (?cfg\<lparr> cfg_parent := Some R \<rparr>) st2)"
        "snd (TraceContext_new (?cfg\<lparr> cfg_parent := Some R \<rparr>) st2)"]
    by (simp add: fr [OF st2] r2)
  then show ?thesis
    using live R(1,2,3) r1 by auto
qed

text \<open>
  The claim as it is written fails when \<open>P\<close> is the shared context: its own
  \<open>callStackName\<close> is empty, and a child constructed with it as parent is named
  \<open>main.g\<close>, not \<open>g\<close>: the walk over the ancestors puts the frame of the shared context
  in front.
\<close>

theorem shared_parent_counterexample:
  "isShared (snd sample_booted) (fst sample_booted)
   \<and> callStackName (snd sample_booted) (fst sample_booted) = []
   \<and> callStackName
       (snd (TraceContext_new (empty_config\<lparr> cfg_fnName := Some ''g'',
                                               cfg_parent := Some (fst sample_booted) \<rparr>)
               (snd sample_booted)))
       (fst (TraceContext_new (empty_config\<lparr> cfg_fnName := Some ''g'',
                                               cfg_parent := Some (fst sample_booted) \<rparr>)
               (snd sample_booted)))
     = ''main.g''
   \<and> renderChain (tc_serviceName (snd sample_booted))
       (evalCallStackNamesChain (snd sample_booted) (fst sample_booted)
        @ [frame_of (fst (TraceContext_new (empty_config\<lparr> cfg_fnName := Some ''g'',
                                               cfg_parent := Some (fst sample_booted) \<rparr>)
               (snd sample_booted)))])
     = ''g''"
  by (simp add: sample_booted_def sample_boot_config_def sharedInit_def initial_state_def
      TraceContext_new_def nanoid_def Let_def split_def empty_config_def orElse_def emit_def
      isShared_def callStackName_def evalCallStackNamesChain_def frame_of_def renderChain_def
      nameStep_def join_def truthy.simps)

section \<open>Properties of the instrumentation\<close>

lemma booted_state:
  "snd sample_booted =
     \<lparr> tc_serviceName = Some ''svc'', tc_serviceColor = None, tc_logLevel = Some LvVerbose,
       tc_shouldLogStartEnd = True, tc_traceDriver = Some (TraceDriver 0),
       tc_shouldRecordTracing = True, tc_logDriver = Some (LogDriver 0),
       tc_shared = Some (fst sample_booted), tc_injectMode = Some AS_ARG,
       Logger_level = Some LvVerbose, env_LOG_SILENT = None, next_ref = 1,
       nanoid_pool = sample_ids, nanoid_used = 1, clock = 0, span_hash = sample_hashes,
       live = (\<lambda>_. None)(0 := Some (fst sample_booted)),
       events = [TraceInit (TraceDriver 0), LogInit (LogDriver 0) (Some ''svc'')],
       pending = [] \<rparr>"
  by (simp add: sample_booted_def sample_boot_config_def sharedInit_def initial_state_def
      TraceContext_new_def nanoid_def Let_def split_def empty_config_def orElse_def emit_def)

text \<open>
  Whatever the traced function is: when the wrapper has reached the call and the function
  throws, the wrapper throws the same error and ends in the state the function left.
  Nothing is logged and no span is finished after the throw.
\<close>

lemma thrown_error_leaves_at_once:
  assumes "enterTraced L w args st = (Inr en, st3)"
    and "fn_body (w_fnToCall w) (e_newArgs en) st3 = (Thrown e, st4)"
  shows "callTraced L w args st = (Thrown e, st4)"
  using assms by (simp add: callTraced_def)

text \<open>
  C1, at a failing input. The process is initialised with a log driver at level verbose
  and a trace driver; \<open>traceFn(f)\<close> wraps a function that throws \<open>E\<close>, and the wrapper is
  called. It throws the same \<open>E\<close>; but the driver calls it made are the span start and the
  start log only: no \<open>fail\<close> log, no \<open>end\<close> log, and the span is neither given the error
  status nor finished.
\<close>

theorem traced_throw_skips_failure_handling:
  "traceFn (ArgFunction sample_thrower) ArgNone None = Inr (Some sample_traced_thrower)
   \<and> fst (callTraced sample_libs sample_traced_thrower [] (snd sample_booted))
       = Thrown (Error ''E'')
   \<and> events (snd (callTraced sample_libs sample_traced_thrower [] (snd sample_booted)))
       = [TraceInit (TraceDriver 0), LogInit (LogDriver 0) (Some ''svc''),
          SpanStart (TraceDriver 0) 2 ''f'' None None (Some ''svc''),
          LogCall (LogDriver 0) LvVerbose ''start'' JUndefined (Some 1)]"
proof -
  have w: "traceFn (ArgFunction sample_thrower) ArgNone None = Inr (Some sample_traced_thrower)"
    by (simp add: traceFn_def sample_thrower_def sample_traced_thrower_def getFnArgNames_def
        empty_traceFnConfig_def orElse_def empty_config_def)
  have run: "fst (callTraced sample_libs sample_traced_thrower [] (snd sample_booted))
        = Thrown (Error ''E'')
      \<and> events (snd (callTraced sample_libs sample_traced_thrower [] (snd sample_booted)))
        = [TraceInit (TraceDriver 0), LogInit (LogDriver 0) (Some ''svc''),
           SpanStart (TraceDriver 0) 2 ''f'' None None (Some ''svc''),
           LogCall (LogDriver 0) LvVerbose ''start'' JUndefined (Some 1)]"
    unfolding booted_state
    by (simp add: callTraced_def enterTraced_def parentSearch_def sample_traced_thrower_def
        sample_thrower_def empty_traceFnConfig_def empty_config_def orElse_def
        TraceContext_new_def nanoid_def
        traceStart_def nonEmpty_def emit_def startArgsOf_def Logger_verbose_def Logger_log_def
        logger_of_def LOG_LEVELS_def scopedMessage_def plainData_def JSON_clone_def
        newArgsOf_def sample_ids_def Let_def)
  show ?thesis
    using w run by simp
qed

text \<open>
  The handlers of the asynchronous path do what the synchronous path leaves out: when the
  promise of a traced call is rejected with \<open>E\<close>, the \<open>fail\<close> log and the \<open>end\<close> log are
  emitted, the span gets the error status and is finished, and \<open>E\<close> is passed on.
\<close>

lemma rejected_promise_is_handled:
  "fst (settle \<lparr> pf_promise = 5, pf_chained = 6, pf_ctx = sample_traced_ctx, pf_startTime = 0,
                  pf_shouldLogStartEnd = True, pf_shouldRecordTracing = True \<rparr>
          (Inl (Error ''E'')) sample_state)
     = Inl (Error ''E'')
   \<and> events (snd (settle \<lparr> pf_promise = 5, pf_chained = 6, pf_ctx = sample_traced_ctx,
                           pf_startTime = 0, pf_shouldLogStartEnd = True,
                           pf_shouldRecordTracing = True \<rparr>
                   (Inl (Error ''E'')) sample_state))
     = [LogCall (LogDriver 0) LvError ''fail'' (JObj [(''message'', JStr ''E'')]) (Some 7),
        LogCall (LogDriver 0) LvVerbose ''end [ELAPSED=0]'' JUndefined (Some 7),
        SpanSetStatus 3 INTERNAL_ERROR, SpanFinish 3]"
  by (simp add: settle_def failThenFinish_def finish_def Logger_error_def Logger_verbose_def
      Logger_log_def logger_of_def sample_traced_ctx_def sample_ctx_def sample_state_def
      initial_state_def LOG_LEVELS_def scopedMessage_def plainData_def JSON_clone_def
      message_of_def emit_def traceFinish_def show_int_def Let_def)

text \<open>
  C2, as the code has it. When the search for the parent finds no context and a hash,
  and \<open>fromHash\<close> fails on that hash with \<open>e\<close> (the token does not decode, or it
  decodes to \<open>null\<close> and the constructor throws), the wrapper throws \<open>e\<close> and the state is
  unchanged: no context is created, nothing is traced or logged, and the function is not
  invoked.
\<close>

theorem undecodable_parent_hash_is_thrown:
  assumes "parentSearch L w args st = (None, Some hash)"
    and "hash \<noteq> []"
    and "fst (fromHash L hash st) = Inl e"
  shows "callTraced L w args st = (Thrown e, st)
    \<and> (hashDecode L hash = Inl e
        \<or> hashDecode L hash = Inr JNull
          \<and> e = TypeError ''Cannot read properties of null (reading id)'')"
proof -
  have unchanged: "fromHash L hash st = (Inl e, st)"
    using assms(3)
    by (auto simp: fromHash_def Let_def split_def split: sum.splits)
  have cause: "hashDecode L hash = Inl e
      \<or> hashDecode L hash = Inr JNull
        \<and> e = TypeError ''Cannot read properties of null (reading id)''"
    using assms(3)
    by (auto simp: fromHash_def config_of_js_def Let_def split_def split: sum.splits jsval.splits)
  have "enterTraced L w args st = (Inl e, st)"
    using assms(1,2) unchanged by (simp add: enterTraced_def Let_def)
  then have "callTraced L w args st = (Thrown e, st)"
    by (simp add: callTraced_def)
  then show ?thesis using cause by simp
qed

theorem undecodable_parent_hash_is_thrown_witness:
  "callTraced sample_libs sample_traced_answer [JStr ''$TRACE_HASH_zzz''] (snd sample_booted)
     = (Thrown (SyntaxError ''Unexpected token in JSON''), snd sample_booted)
   \<and> hashDecode sample_libs ''$TRACE_HASH_zzz'' = Inl (SyntaxError ''Unexpected token in JSON'')"
proof -
  have c: "parentSearch sample_libs sample_traced_answer [JStr ''$TRACE_HASH_zzz''] (snd sample_booted)
      = (None, Some ''$TRACE_HASH_zzz'')"
    by (simp add: parentSearch_def sample_traced_answer_def empty_config_def
        empty_traceFnConfig_def startsWith_def nonEmpty_def)
  have d: "''$TRACE_HASH_zzz'' \<noteq> []"
    by simp
  have dec: "hashDecode sample_libs ''$TRACE_HASH_zzz'' = Inl (SyntaxError ''Unexpected token in JSON'')"
    by (simp add: hashDecode_def TRACE_HASH_PREFIX_def sample_libs_def JSON_parse_def)
  have e: "fst (fromHash sample_libs ''$TRACE_HASH_zzz'' (snd sample_booted))
      = Inl (SyntaxError ''Unexpected token in JSON'')"
    by (simp add: fromHash_def dec)
  show ?thesis
    using undecodable_parent_hash_is_thrown [OF c d e] dec by simp
qed

text \<open>
  The claim as it is written fails. The process is initialised; \<open>traceFn(answer)\<close> wraps
  a function that returns 42, and the wrapper is called with the token that is the
  prefix alone. The payload decompresses to \<open>null\<close>, \<open>JSON.parse(null)\<close> is \<open>null\<close>, the
  constructor throws on it, and so does the wrapper: 42 is not returned, and the state is
  as before the call, so the function was not invoked.
\<close>

theorem malformed_hash_counterexample:
  "traceFn (ArgFunction sample_answer) ArgNone None = Inr (Some sample_traced_answer)
   \<and> callTraced sample_libs sample_traced_answer [JStr ''$TRACE_HASH_''] (snd sample_booted)
       = (Thrown (TypeError ''Cannot read properties of null (reading id)''), snd sample_booted)
   \<and> fst (callTraced sample_libs sample_traced_answer [JStr ''x''] (snd sample_booted))
       = Returned (JNum 42)"
proof -
  have w: "traceFn (ArgFunction sample_answer) ArgNone None = Inr (Some sample_traced_answer)"
    by (simp add: traceFn_def sample_answer_def sample_traced_answer_def getFnArgNames_def
        empty_traceFnConfig_def orElse_def empty_config_def)
  have dec: "fromHash sample_libs ''$TRACE_HASH_'' st
      = (Inl (TypeError ''Cannot read properties of null (reading id)''), st)" for st
    by (simp add: fromHash_def hashDecode_def TRACE_HASH_PREFIX_def sample_libs_def
        JSON_parse_def config_of_js_def)
  have bad: "callTraced sample_libs sample_traced_answer [JStr ''$TRACE_HASH_''] (snd sample_booted)
      = (Thrown (TypeError ''Cannot read properties of null (reading id)''), snd sample_booted)"
    by (simp add: callTraced_def enterTraced_def parentSearch_def sample_traced_answer_def
        empty_traceFnConfig_def empty_config_def startsWith_def nonEmpty_def dec Let_def)
  have good: "fst (callTraced sample_libs sample_traced_answer [JStr ''x''] (snd sample_booted))
      = Returned (JNum 42)"
    unfolding booted_state
    by (simp add: callTraced_def enterTraced_def parentSearch_def sample_traced_answer_def
        sample_answer_def empty_traceFnConfig_def empty_config_def orElse_def
        TraceContext_new_def nanoid_def
        traceStart_def nonEmpty_def emit_def startArgsOf_def Logger_verbose_def Logger_log_def
        logger_of_def LOG_LEVELS_def scopedMessage_def plainData_def JSON_clone_def
        newArgsOf_def sample_ids_def startsWith_def finish_def traceFinish_def CTX_ARG_NAME_def
        show_int_def Let_def)
  show ?thesis
    using w bad good by simp
qed

section \<open>Properties of the payload data\<close>


lemma erase_lookup:
  "(case map_of (map (\<lambda>kv. (fst kv, erase (snd kv))) t) k of Some v \<Rightarrow> v | None \<Rightarrow> JUndefined)
     = erase (case map_of t k of Some v \<Rightarrow> v | None \<Rightarrow> LUndefined)"
  by (induction t) auto

lemma erase_present:
  "(\<exists>y. map_of (map (\<lambda>kv. (fst kv, erase (snd kv))) t) k = Some y) = (\<exists>y. map_of t k = Some y)"
  by (induction t) auto

lemma erase_lsetProp:
  "map (\<lambda>kv. (fst kv, erase (snd kv))) (lsetProp t k v)
     = setProp (map (\<lambda>kv. (fst kv, erase (snd kv))) t) k (erase v)"
  by (induction t) auto

lemma erase_lmerge_rec:
  "erase (fst (lmergeValue objValue present src n)) = mergeValue (erase objValue) present (erase src)"
  "map (\<lambda>kv. (fst kv, erase (snd kv))) (fst (lmergeProps t kvs n))
     = mergeProps (map (\<lambda>kv. (fst kv, erase (snd kv))) t) (map (\<lambda>kv. (fst kv, erase (snd kv))) kvs)"
  "map erase (fst (lmergeElems ts vs n)) = mergeElems (map erase ts) (map erase vs)"
proof (induction objValue present src n and t kvs n and ts vs n
    rule: lmergeValue_lmergeProps_lmergeElems.induct)
  case (1 objValue present a src n)
  then show ?case by (cases objValue) (simp_all add: Let_def)
next
  case (2 objValue present a src n)
  then show ?case by (cases objValue) (simp_all add: Let_def)
next
  case (10 t kv src n)
  then show ?case
    by (simp add: Let_def erase_lsetProp erase_lookup erase_present)
qed (simp_all add: Let_def)

lemma lsetProp_containers:
  "(\<Union>kv \<in> set (lsetProp t k v). containers (snd kv))
     \<subseteq> (\<Union>kv \<in> set t. containers (snd kv)) \<union> containers v"
proof (induction t)
  case Nil
  then show ?case by simp
next
  case (Cons kv' t)
  show ?case
  proof (cases "fst kv' = k")
    case True
    then show ?thesis by (cases kv') auto
  next
    case False
    then show ?thesis using Cons by (cases kv') (simp, blast)
  qed
qed

lemma lookup_containers:
  "containers (case map_of t k of Some v \<Rightarrow> v | None \<Rightarrow> LUndefined)
     \<subseteq> (\<Union>kv \<in> set t. containers (snd kv))"
  by (induction t) auto


text \<open>
  Merging into a destination whose objects were all made since \<open>n0\<close> yields a value whose
  objects were all made since \<open>n0\<close>: no object of a source is taken over.
\<close>

lemma lmerge_rec_fresh:
  "n0 \<le> n \<Longrightarrow> containers objValue \<subseteq> {n0..<n}
     \<Longrightarrow> n \<le> snd (lmergeValue objValue present src n)
       \<and> containers (fst (lmergeValue objValue present src n))
           \<subseteq> {n0..<snd (lmergeValue objValue present src n)}"
  "n0 \<le> n \<Longrightarrow> (\<Union>kv \<in> set t. containers (snd kv)) \<subseteq> {n0..<n}
     \<Longrightarrow> n \<le> snd (lmergeProps t kvs n)
       \<and> (\<Union>kv \<in> set (fst (lmergeProps t kvs n)). containers (snd kv))
           \<subseteq> {n0..<snd (lmergeProps t kvs n)}"
  "n0 \<le> n \<Longrightarrow> (\<Union>v \<in> set ts. containers v) \<subseteq> {n0..<n}
     \<Longrightarrow> n \<le> snd (lmergeElems ts vs n)
       \<and> (\<Union>v \<in> set (fst (lmergeElems ts vs n)). containers v)
           \<subseteq> {n0..<snd (lmergeElems ts vs n)}"
proof (induction objValue present src n and t kvs n and ts vs n
    rule: lmergeValue_lmergeProps_lmergeElems.induct)
  case (1 objValue present a src n)
  note prems = \<open>n0 \<le> n\<close> \<open>containers objValue \<subseteq> {n0..<n}\<close>
  show ?case
  proof (cases "\<exists>b t. objValue = LArr b t")
    case True
    then obtain b t where o: "objValue = LArr b t" by blast
    have "n \<le> snd (lmergeElems t src n)
        \<and> (\<Union>v \<in> set (fst (lmergeElems t src n)). containers v) \<subseteq> {n0..<snd (lmergeElems t src n)}"
      using 1(6) [OF o] prems o by auto
    moreover have "b \<in> {n0..<n}" using prems o by simp
    ultimately show ?thesis using o by (auto simp: Let_def)
  next
    case False
    have ih: "Suc n \<le> snd (lmergeElems [] src (Suc n))
        \<and> (\<Union>v \<in> set (fst (lmergeElems [] src (Suc n))). containers v)
            \<subseteq> {n0..<snd (lmergeElems [] src (Suc n))}"
      using False 1(1-5,7,8) prems by (cases objValue) auto
    have r: "lmergeValue objValue present (LArr a src) n
        = (LArr n (fst (lmergeElems [] src (Suc n))), snd (lmergeElems [] src (Suc n)))"
      using False by (cases objValue) (auto simp: Let_def)
    show ?thesis unfolding r using ih prems by auto
  qed
next
  case (2 objValue present a src n)
  note prems = \<open>n0 \<le> n\<close> \<open>containers objValue \<subseteq> {n0..<n}\<close>
  consider (obj) b t where "objValue = LObj b t" | (arr) b t where "objValue = LArr b t"
    | (ctx) r where "objValue = LCtx r"
    | (other) "\<forall>b t. objValue \<noteq> LObj b t" "\<forall>b t. objValue \<noteq> LArr b t" "\<forall>r. objValue \<noteq> LCtx r"
    by (cases objValue) auto
  then show ?case
  proof cases
    case obj
    have "n \<le> snd (lmergeProps t src n)
        \<and> (\<Union>kv \<in> set (fst (lmergeProps t src n)). containers (snd kv))
            \<subseteq> {n0..<snd (lmergeProps t src n)}"
      using 2(6) [OF obj] prems obj by auto
    moreover have "b \<in> {n0..<n}" using prems obj by simp
    ultimately show ?thesis using obj by (auto simp: Let_def)
  next
    case arr
    then show ?thesis using prems by simp
  next
    case ctx
    then show ?thesis by simp
  next
    case other
    have ih: "Suc n \<le> snd (lmergeProps [] src (Suc n))
        \<and> (\<Union>kv \<in> set (fst (lmergeProps [] src (Suc n))). containers (snd kv))
            \<subseteq> {n0..<snd (lmergeProps [] src (Suc n))}"
      using other 2(1-5) prems by (cases objValue) auto
    have r: "lmergeValue objValue present (LObj a src) n
        = (LObj n (fst (lmergeProps [] src (Suc n))), snd (lmergeProps [] src (Suc n)))"
      using other by (cases objValue) (auto simp: Let_def)
    show ?thesis unfolding r using ih prems by auto
  qed
next
  case (10 t kv src n)
  note prems = \<open>n0 \<le> n\<close> \<open>(\<Union>kv \<in> set t. containers (snd kv)) \<subseteq> {n0..<n}\<close>
  let ?r = "lmergeValue (case map_of t (fst kv) of None \<Rightarrow> LUndefined | Some v \<Rightarrow> v)
              (map_of t (fst kv) \<noteq> None) (snd kv) n"
  have "containers (case map_of t (fst kv) of None \<Rightarrow> LUndefined | Some v \<Rightarrow> v) \<subseteq> {n0..<n}"
    using lookup_containers [of t "fst kv"] prems(2) by (auto split: option.splits)
  then have a: "n \<le> snd ?r" "containers (fst ?r) \<subseteq> {n0..<snd ?r}"
    using 10(1) prems(1) by simp_all
  have "(\<Union>kv \<in> set (lsetProp t (fst kv) (fst ?r)). containers (snd kv)) \<subseteq> {n0..<snd ?r}"
    using lsetProp_containers [of t "fst kv" "fst ?r"] prems(2) a by fastforce
  then have "snd ?r \<le> snd (lmergeProps (lsetProp t (fst kv) (fst ?r)) src (snd ?r))
      \<and> (\<Union>kv \<in> set (fst (lmergeProps (lsetProp t (fst kv) (fst ?r)) src (snd ?r))).
            containers (snd kv))
          \<subseteq> {n0..<snd (lmergeProps (lsetProp t (fst kv) (fst ?r)) src (snd ?r))}"
    using 10(2) [OF refl] prems(1) a(1) by simp
  then show ?case using a(1) by (simp add: Let_def)
next
  case (12 s src n)
  note prems = \<open>n0 \<le> n\<close>
  let ?r = "lmergeValue LUndefined False s n"
  have a: "n \<le> snd ?r" "containers (fst ?r) \<subseteq> {n0..<snd ?r}"
    using 12(1) prems by simp_all
  have b: "snd ?r \<le> snd (lmergeElems [] src (snd ?r))
      \<and> (\<Union>v \<in> set (fst (lmergeElems [] src (snd ?r))). containers v)
          \<subseteq> {n0..<snd (lmergeElems [] src (snd ?r))}"
    using 12(2) [OF refl] prems a(1) by simp
  show ?case using a b by (fastforce simp: Let_def)
next
  case (13 t ts s src n)
  note prems = \<open>n0 \<le> n\<close> \<open>(\<Union>v \<in> set (t # ts). containers v) \<subseteq> {n0..<n}\<close>
  let ?r = "lmergeValue t True s n"
  have a: "n \<le> snd ?r" "containers (fst ?r) \<subseteq> {n0..<snd ?r}"
    using 13(1) prems by simp_all
  have "(\<Union>v \<in> set ts. containers v) \<subseteq> {n0..<snd ?r}"
    using prems(2) a(1) by fastforce
  then have b: "snd ?r \<le> snd (lmergeElems ts src (snd ?r))
      \<and> (\<Union>v \<in> set (fst (lmergeElems ts src (snd ?r))). containers v)
          \<subseteq> {n0..<snd (lmergeElems ts src (snd ?r))}"
    using 13(2) [OF refl] prems(1) a(1) by simp
  show ?case using a b by (fastforce simp: Let_def)
qed auto
lemma erase_zip:
  "map (\<lambda>kv. (fst kv, erase (snd kv))) (zip ks vs) = zip ks (map erase vs)"
  by (induction ks vs rule: list_induct2') auto

lemma erase_lprops:
  "map (\<lambda>kv. (fst kv, erase (snd kv))) (lprops_of s) = props_of (erase s)"
  by (cases s) (simp_all add: erase_zip comp_def)

lemma lprops_containers: "(\<Union>kv \<in> set (lprops_of s). containers (snd kv)) \<subseteq> containers s"
proof (cases s)
  case (LArr a vs)
  then show ?thesis by (auto dest!: set_zip_rightD)
next
  case (LStr x)
  then show ?thesis by (auto dest!: set_zip_rightD)
qed auto

lemma erase_lmerge_fold:
  "map (\<lambda>kv. (fst kv, erase (snd kv)))
     (fst (foldl (\<lambda>acc s. if truthy (erase s)
                            then lmergeProps (fst acc) (lprops_of s) (snd acc) else acc)
             acc sources))
   = foldl (\<lambda>t s. if truthy s then mergeProps t (props_of s) else t)
       (map (\<lambda>kv. (fst kv, erase (snd kv))) (fst acc)) (map erase sources)"
  by (induction sources arbitrary: acc) (simp_all add: erase_lmerge_rec(2) erase_lprops)

text \<open>Forgetting the identities turns the merge with identities into \<open>merge\<close>.\<close>

lemma erase_lmerge: "erase (fst (lmerge n sources)) = merge (map erase sources)"
  using erase_lmerge_fold [of "([], Suc n)" sources]
  by (simp add: lmerge_def merge_def Let_def)

lemma lmerge_fold_fresh:
  assumes "n0 \<le> snd acc" and "(\<Union>kv \<in> set (fst acc). containers (snd kv)) \<subseteq> {n0..<snd acc}"
  shows "snd acc \<le> snd (foldl (\<lambda>acc s. if truthy (erase s)
                            then lmergeProps (fst acc) (lprops_of s) (snd acc) else acc)
             acc sources)
    \<and> (\<Union>kv \<in> set (fst (foldl (\<lambda>acc s. if truthy (erase s)
                            then lmergeProps (fst acc) (lprops_of s) (snd acc) else acc)
             acc sources)). containers (snd kv))
      \<subseteq> {n0..<snd (foldl (\<lambda>acc s. if truthy (erase s)
                            then lmergeProps (fst acc) (lprops_of s) (snd acc) else acc)
             acc sources)}"
  using assms
proof (induction sources arbitrary: acc)
  case Nil
  then show ?case by simp
next
  case (Cons s sources)
  show ?case
  proof (cases "truthy (erase s)")
    case True
    let ?acc = "lmergeProps (fst acc) (lprops_of s) (snd acc)"
    have step: "snd acc \<le> snd ?acc
        \<and> (\<Union>kv \<in> set (fst ?acc). containers (snd kv)) \<subseteq> {n0..<snd ?acc}"
      using lmerge_rec_fresh(2) [OF Cons.prems(1) Cons.prems(2)] by simp
    then have "n0 \<le> snd ?acc" using Cons.prems(1) by simp
    from Cons.IH [OF this] step show ?thesis
      using True by (simp add: order_trans)
  next
    case False
    then show ?thesis using Cons by simp
  qed
qed

text \<open>Every array and plain object of the merged value is new.\<close>

lemma lmerge_fresh:
  "n < snd (lmerge n sources)
   \<and> containers (fst (lmerge n sources)) \<subseteq> {n..<snd (lmerge n sources)}"
  using lmerge_fold_fresh [of n "([], Suc n)" sources]
  by (auto simp: lmerge_def Let_def)

text \<open>A write to an object changes no value that does not hold this object.\<close>

lemma mutate_elsewhere: "a \<notin> containers v \<Longrightarrow> mutate a g v = v"
proof (induction v)
  case (LArr b vs)
  then show ?case by (auto simp: map_idI)
next
  case (LObj b kvs)
  have "map (\<lambda>kv. (fst kv, mutate a g (snd kv))) kvs = kvs"
  proof (rule map_idI)
    fix kv assume mem: "kv \<in> set kvs"
    have "snd kv \<in> Basic_BNFs.snds kv" by (cases kv) simp
    moreover have "a \<notin> containers (snd kv)" using LObj.prems mem by auto
    ultimately have "mutate a g (snd kv) = snd kv" using LObj.IH mem by blast
    then show "(fst kv, mutate a g (snd kv)) = kv" by (cases kv) simp
  qed
  then show ?case using LObj.prems by simp
qed simp_all

lemma map_of_setProp:
  "map_of (setProp t k v) k' = (if k' = k then Some v else map_of t k')"
  by (induction t) auto

text \<open>A key after \<open>mergeProps\<close>: merged when the source has it, as before otherwise.\<close>

lemma map_of_mergeProps:
  "distinct (map fst src) \<Longrightarrow>
   map_of (mergeProps t src) k =
     (case map_of src k of
        Some v \<Rightarrow> Some (mergeValue (case map_of t k of Some x \<Rightarrow> x | None \<Rightarrow> JUndefined)
                          (map_of t k \<noteq> None) v)
      | None \<Rightarrow> map_of t k)"
proof (induction src arbitrary: t)
  case Nil
  then show ?case by simp
next
  case (Cons kv src)
  have notin: "map_of src (fst kv) = None"
    using Cons.prems by (simp add: map_of_eq_None_iff)
  show ?case
    using Cons.IH [of "setProp t (fst kv)
        (mergeValue (case map_of t (fst kv) of Some v \<Rightarrow> v | None \<Rightarrow> JUndefined)
           (map_of t (fst kv) \<noteq> None) (snd kv))"] Cons.prems notin
    by (cases kv) (auto simp: map_of_setProp split: option.splits)
qed

lemma mergeValue_primitive: "primitive v \<Longrightarrow> mergeValue objValue present v = v"
  by (cases v) simp_all

text \<open>Merging a well-formed value into nothing gives the value back (a deep copy).\<close>

lemma setProp_new: "k \<notin> fst ` set t \<Longrightarrow> setProp t k v = t @ [(k, v)]"
  by (induction t) auto

lemma merge_copy_rec:
  "objValue = JUndefined \<Longrightarrow> \<not> present \<Longrightarrow> wf src \<Longrightarrow> mergeValue objValue present src = src"
  "distinct (map fst kvs) \<Longrightarrow> fst ` set t \<inter> fst ` set kvs = {} \<Longrightarrow> \<forall>kv \<in> set kvs. wf (snd kv)
     \<Longrightarrow> mergeProps t kvs = t @ kvs"
  "ts = [] \<Longrightarrow> \<forall>v \<in> set vs. wf v \<Longrightarrow> mergeElems ts vs = vs"
proof (induction objValue present src and t kvs and ts vs
    rule: mergeValue_mergeProps_mergeElems.induct)
  case (10 t kv src)
  have k: "fst kv \<notin> fst ` set t" using 10(4) by auto
  then have look: "map_of t (fst kv) = None"
    by (simp add: map_of_eq_None_iff)
  have v: "mergeValue JUndefined False (snd kv) = snd kv"
    using 10(1) 10(5) by (simp add: look)
  have "mergeProps (setProp t (fst kv) (snd kv)) src = setProp t (fst kv) (snd kv) @ src"
    using 10(2) 10(3,4,5) by (auto simp: look v setProp_new [OF k])
  then show ?case
    by (simp add: look v setProp_new [OF k])
qed auto

lemma merge_single:
  assumes "cd = JUndefined \<or> isPlainObject cd \<and> wf cd"
  shows "getProp (merge [cd]) k = getProp cd k \<and> hasProp (merge [cd]) k = hasProp cd k"
proof (cases cd)
  case (JObj kvs)
  then have "mergeProps [] kvs = kvs"
    using assms merge_copy_rec(2) [of kvs "[]"] by simp
  then show ?thesis using JObj by (simp add: merge_def)
qed (use assms in \<open>simp_all add: merge_def\<close>)

text \<open>
  C4, as the code has it. The data of a child constructed with parent \<open>P\<close> is
  \<open>_.merge({}, data, P.data)\<close> when the data of \<open>P\<close> is truthy, and the given data itself
  otherwise. When the data of \<open>P\<close> is a plain object with distinct keys and the given data
  is absent or a well-formed plain object: a key of \<open>P\<close> is a key of the child, holding the
  deep merge of the given value with the value of \<open>P\<close> on top, so a primitive value of
  \<open>P\<close> shadows a given value at the same key; a key that \<open>P\<close> has not holds the given
  value. With identities: the merged data has the value just described, none of its
  arrays and plain objects is one of the data of \<open>P\<close>, and a write to any of them leaves
  the data of \<open>P\<close> as it was.
\<close>

theorem data_inherited_parent_on_top:
  assumes new: "TraceContext_new config st = (child, st')"
    and par: "cfg_parent config = Some P"
  shows "c_data (self child)
        = (if truthy (c_data (self P)) then merge [cfg_data config, c_data (self P)]
           else cfg_data config)
    \<and> (\<forall>pk. c_data (self P) = JObj pk \<and> distinct (map fst pk)
             \<and> (cfg_data config = JUndefined
                 \<or> isPlainObject (cfg_data config) \<and> wf (cfg_data config)) \<longrightarrow>
          (\<forall>k v. map_of pk k = Some v \<longrightarrow>
             getProp (c_data (self child)) k
               = mergeValue (getProp (cfg_data config) k) (hasProp (cfg_data config) k) v
             \<and> (primitive v \<longrightarrow> getProp (c_data (self child)) k = v))
          \<and> (\<forall>k. map_of pk k = None \<longrightarrow>
                getProp (c_data (self child)) k = getProp (cfg_data config) k))
    \<and> (\<forall>lc lp n. erase lc = cfg_data config \<and> erase lp = c_data (self P)
             \<and> truthy (c_data (self P)) \<and> containers lp \<subseteq> {..<n} \<longrightarrow>
          erase (fst (lmerge n [lc, lp])) = c_data (self child)
          \<and> containers (fst (lmerge n [lc, lp])) \<inter> containers lp = {}
          \<and> (\<forall>a \<in> containers (fst (lmerge n [lc, lp])). \<forall>g. mutate a g lp = lp))"
proof -
  let ?cd = "cfg_data config" and ?pd = "c_data (self P)"
  have A: "c_data (self child) = (if truthy ?pd then merge [?cd, ?pd] else ?cd)"
    using new par
    by (auto simp: TraceContext_new_def Let_def split_def nanoid_def split: option.splits)
  have B: "getProp (c_data (self child)) k
        = (case map_of pk k of
             Some v \<Rightarrow> mergeValue (getProp ?cd k) (hasProp ?cd k) v
           | None \<Rightarrow> getProp ?cd k)"
    if pd: "?pd = JObj pk" and dist: "distinct (map fst pk)"
      and cd: "?cd = JUndefined \<or> isPlainObject ?cd \<and> wf ?cd" for pk k
  proof -
    obtain t1 where t1: "merge [?cd] = JObj t1"
      by (simp add: merge_def)
    have m: "merge [?cd, ?pd] = JObj (mergeProps t1 pk)"
      using t1 pd by (simp add: merge_def)
    have look: "(case map_of t1 k of Some x \<Rightarrow> x | None \<Rightarrow> JUndefined) = getProp ?cd k"
      "(map_of t1 k \<noteq> None) = hasProp ?cd k"
      using merge_single [OF cd, of k] t1 by simp_all
    have "c_data (self child) = JObj (mergeProps t1 pk)"
      using A pd m by simp
    then show ?thesis
      using map_of_mergeProps [OF dist, of t1 k] look
      by (auto split: option.splits)
  qed
  have C: "erase (fst (lmerge n [lc, lp])) = c_data (self child)
      \<and> containers (fst (lmerge n [lc, lp])) \<inter> containers lp = {}
      \<and> (\<forall>a \<in> containers (fst (lmerge n [lc, lp])). \<forall>g. mutate a g lp = lp)"
    if e: "erase lc = ?cd" "erase lp = ?pd" and tr: "truthy ?pd" and old: "containers lp \<subseteq> {..<n}"
    for lc lp n
  proof -
    have v: "erase (fst (lmerge n [lc, lp])) = c_data (self child)"
      using erase_lmerge [of n "[lc, lp]"] e tr A by simp
    have fr: "containers (fst (lmerge n [lc, lp])) \<subseteq> {n..<snd (lmerge n [lc, lp])}"
      using lmerge_fresh [of n "[lc, lp]"] by simp
    have dis: "containers (fst (lmerge n [lc, lp])) \<inter> containers lp = {}"
      using fr old by fastforce
    have "mutate a g lp = lp" if "a \<in> containers (fst (lmerge n [lc, lp]))" for a g
      using that dis by (intro mutate_elsewhere) blast
    then show ?thesis using v dis by blast
  qed
  show ?thesis
  proof (intro conjI allI impI ballI)
    show "c_data (self child) = (if truthy ?pd then merge [?cd, ?pd] else ?cd)"
      by (rule A)
  next
    fix pk k v
    assume h: "?pd = JObj pk \<and> distinct (map fst pk)
        \<and> (?cd = JUndefined \<or> isPlainObject ?cd \<and> wf ?cd)"
      and kv: "map_of pk k = Some v"
    show "getProp (c_data (self child)) k = mergeValue (getProp ?cd k) (hasProp ?cd k) v"
      using B [of pk k] h kv by simp
    assume "primitive v"
    then show "getProp (c_data (self child)) k = v"
      using B [of pk k] h kv by (simp add: mergeValue_primitive)
  next
    fix pk k
    assume h: "?pd = JObj pk \<and> distinct (map fst pk)
        \<and> (?cd = JUndefined \<or> isPlainObject ?cd \<and> wf ?cd)"
      and kv: "map_of pk k = None"
    show "getProp (c_data (self child)) k = getProp ?cd k"
      using B [of pk k] h kv by simp
  next
    fix lc lp n
    assume h: "erase lc = ?cd \<and> erase lp = ?pd \<and> truthy ?pd \<and> containers lp \<subseteq> {..<n}"
    show "erase (fst (lmerge n [lc, lp])) = c_data (self child)"
      and "containers (fst (lmerge n [lc, lp])) \<inter> containers lp = {}"
      using C [of lc lp n] h by simp_all
    fix a g
    assume "a \<in> containers (fst (lmerge n [lc, lp]))"
    then show "mutate a g lp = lp"
      using C [of lc lp n] h by blast
  qed
qed

theorem data_inherited_parent_on_top_witness:
  "c_data (self (fst (TraceContext_new sample_child_config sample_state)))
     = JObj [(''a'', JNum 2), (''c'', JNum 3), (''b'', JObj [(''x'', JNum 1)])]
   \<and> getProp (c_data (self (fst (TraceContext_new sample_child_config sample_state)))) ''c''
     = JNum 3
   \<and> erase (fst (lmerge 3 [sample_child_ldata, sample_parent_ldata]))
     = c_data (self (fst (TraceContext_new sample_child_config sample_state)))
   \<and> containers (fst (lmerge 3 [sample_child_ldata, sample_parent_ldata]))
       \<inter> containers sample_parent_ldata = {}"
proof -
  let ?child = "fst (TraceContext_new sample_child_config sample_state)"
  have new: "TraceContext_new sample_child_config sample_state
      = (?child, snd (TraceContext_new sample_child_config sample_state))"
    by simp
  have par: "cfg_parent sample_child_config = Some sample_parent"
    by (simp add: sample_child_config_def)
  have pd: "c_data (self sample_parent) = sample_parent_data"
    by (simp add: sample_parent_def)
  have cd: "cfg_data sample_child_config = sample_child_data"
    by (simp add: sample_child_config_def)
  have tr: "truthy sample_parent_data"
    by (simp add: sample_parent_data_def)
  have m: "merge [sample_child_data, sample_parent_data]
      = JObj [(''a'', JNum 2), (''c'', JNum 3), (''b'', JObj [(''x'', JNum 1)])]"
    by (simp add: merge_def sample_child_data_def sample_parent_data_def)
  note main = data_inherited_parent_on_top [OF new par]
  have a: "c_data (self ?child)
      = JObj [(''a'', JNum 2), (''c'', JNum 3), (''b'', JObj [(''x'', JNum 1)])]"
    using main [THEN conjunct1] by (simp add: pd cd tr m)
  have el: "erase sample_child_ldata = cfg_data sample_child_config"
      "erase sample_parent_ldata = c_data (self sample_parent)"
      "containers sample_parent_ldata \<subseteq> {..<3}"
    by (simp_all add: sample_child_ldata_def sample_parent_ldata_def cd pd sample_child_data_def
        sample_parent_data_def)
  have b: "erase (fst (lmerge 3 [sample_child_ldata, sample_parent_ldata])) = c_data (self ?child)
      \<and> containers (fst (lmerge 3 [sample_child_ldata, sample_parent_ldata]))
          \<inter> containers sample_parent_ldata = {}"
    using main [THEN conjunct2, THEN conjunct2, rule_format,
        of sample_child_ldata sample_parent_ldata 3] el tr pd
    by simp
  show ?thesis
    using a b by simp
qed

text \<open>
  The claim as it is written fails: the child is given \<open>{a: 1, c: 3}\<close>, its parent holds
  \<open>{a: 2, b: {x: 1}}\<close>, and the child's \<open>a\<close> is the parent's 2, not the 1 it was given.
\<close>

theorem child_value_shadowed_counterexample:
  "cfg_parent sample_child_config = Some sample_parent
   \<and> getProp (cfg_data sample_child_config) ''a'' = JNum 1
   \<and> getProp (c_data (self sample_parent)) ''a'' = JNum 2
   \<and> getProp (c_data (self (fst (TraceContext_new sample_child_config sample_state)))) ''a''
       = JNum 2"
  by (simp add: TraceContext_new_def sample_child_config_def sample_parent_def
      sample_child_data_def sample_parent_data_def empty_config_def nanoid_def merge_def
      Let_def split_def)

section \<open>What reaches the log driver\<close>

text \<open>JSON data holds no context.\<close>

lemma json_data_no_context: "json_data j \<Longrightarrow> \<not> has_ctx_ref j"
proof (induction j)
  case (JObj kvs)
  have "\<not> has_ctx_ref (snd kv)" if "kv \<in> set kvs" for kv
  proof -
    have "snd kv \<in> Basic_BNFs.snds kv" by (cases kv) simp
    moreover have "json_data (snd kv)" using JObj.prems that by simp
    ultimately show ?thesis using JObj.IH that by blast
  qed
  then show ?case by simp
qed auto

text \<open>
  The data handed to the log driver is undefined or the plain copy of \<open>data\<close>: it never
  holds a context, whether or not the items were cleaned.
\<close>

lemma plainData_no_context: "\<not> has_ctx_ref (plainData data)"
proof (cases "JSON_clone (if length data = 1 then data ! 0 else JArr data)")
  case (Inl e)
  then show ?thesis by (simp add: plainData_def)
next
  case (Inr j)
  then have "json_data j"
    using JSON_value_is_json_data
    by (auto simp: JSON_clone_def split: sum.splits option.splits)
  then show ?thesis
    using Inr json_data_no_context by (simp add: plainData_def)
qed

lemma log_call_data:
  "events (snd (Logger_log lg lv message data st)) = events st
   \<or> (\<exists>d. events (snd (Logger_log lg lv message data st))
          = events st @ [LogCall d lv (scopedMessage lg message) (plainData data)
                           (map_option (\<lambda>c. c_ref (self c)) (l_traceCtx lg))])"
  by (auto simp: Logger_log_def emit_def Let_def split: option.splits)

end
